theory Spec2Isabelle
  imports Main "HOL-Library.Finite_Map" "HOL-Library.Char_ord" "HOL-Library.List_Lexorder"
begin

section \<open>The crawled record\<close>

text \<open>
  A Go \<^verbatim>\<open>map[string]string\<close> is either nil or a finite map. Reading a nil map is
  allowed, writing to it panics. \<open>None\<close> is the nil map.
\<close>

type_synonym gomap = "(string, string) fmap option"

text \<open>The struct \<^verbatim>\<open>Result\<close>, fields in the order of their declaration.\<close>

record Result =
  Links :: gomap
  IconLinks :: gomap
  Title :: string
  ProfileName :: string
  ProfileImg :: string

text \<open>The zero value \<^verbatim>\<open>Result{}\<close>: nil maps and empty strings.\<close>

definition Result_zero :: Result where
  "Result_zero = \<lparr>Links = None, IconLinks = None, Title = [], ProfileName = [], ProfileImg = []\<rparr>"

text \<open>The number of entries of a map, \<^verbatim>\<open>len(m)\<close>; a nil map has none.\<close>

definition len_map :: "gomap \<Rightarrow> nat" where
  "len_map m = (case m of None \<Rightarrow> 0 | Some f \<Rightarrow> size (fmdom f))"

text \<open>Reading \<^verbatim>\<open>m[k]\<close> with the comma-ok form: \<open>None\<close> when the key is absent.\<close>

definition map_index :: "gomap \<Rightarrow> string \<Rightarrow> string option" where
  "map_index m k = (case m of None \<Rightarrow> None | Some f \<Rightarrow> fmlookup f k)"

text \<open>
  The assignment \<^verbatim>\<open>m[k] = v\<close>. On a nil map the Go runtime panics
  (assignment to entry in nil map): the result \<open>None\<close>.
\<close>

definition map_assign :: "gomap \<Rightarrow> string \<Rightarrow> string \<Rightarrow> gomap option" where
  "map_assign m k v = (case m of None \<Rightarrow> None | Some f \<Rightarrow> Some (Some (fmupd k v f)))"

section \<open>The parsed page\<close>

text \<open>
  The selector engine is a collaborator of the program. For each of the five selectors
  registered with \<^verbatim>\<open>OnHTML\<close> the page gives the matching elements in document
  order, each reduced to what its callback reads:
  \<^item> \<open>titles\<close>: \<^verbatim>\<open>e.Text\<close> of every \<^verbatim>\<open>head > title\<close>;
  \<^item> \<open>link_buttons\<close>: \<^verbatim>\<open>(e.ChildText("div > p"), e.Attr("href"))\<close> of every
    \<^verbatim>\<open>a[data-testid='LinkButton']\<close>;
  \<^item> \<open>social_icons\<close>: \<^verbatim>\<open>(e.ChildAttr("title", "title"), e.Attr("href"))\<close> of every
    \<^verbatim>\<open>a[data-testid='SocialIcon']\<close>;
  \<^item> \<open>profile_titles\<close>: \<^verbatim>\<open>e.Text\<close> of every \<^verbatim>\<open>div[id='profile-title']\<close>;
  \<^item> \<open>profile_images\<close>: \<^verbatim>\<open>e.Attr("src")\<close> of every
    \<^verbatim>\<open>img[data-testid="ProfileImage"]\<close>.
\<close>

record document =
  titles :: "string list"
  link_buttons :: "(string \<times> string) list"
  social_icons :: "(string \<times> string) list"
  profile_titles :: "string list"
  profile_images :: "string list"

text \<open>
  What \<^verbatim>\<open>collector.Visit(link)\<close> does, as far as the program sees it: whether the
  \<^verbatim>\<open>OnRequest\<close> callback ran (and with which URL text), the elements handed to the
  \<^verbatim>\<open>OnHTML\<close> callbacks, and the error it returns, if any.
\<close>

type_synonym lib_error = string

record visit_outcome =
  on_request :: "string option"
  matched :: document
  visit_err :: "lib_error option"

section \<open>The callbacks\<close>

text \<open>Each callback is a function of the record captured by the closure and of one element.\<close>

definition onTitle :: "Result \<Rightarrow> string \<Rightarrow> Result option" where
  "onTitle result text = Some (result\<lparr>Title := text\<rparr>)"

definition onLinkButton :: "Result \<Rightarrow> string \<times> string \<Rightarrow> Result option" where
  "onLinkButton result e =
     (let linkText = fst e; href = snd e in
      if linkText \<noteq> [] \<and> href \<noteq> [] then
        (case map_assign (Links result) linkText href of
           None \<Rightarrow> None
         | Some m \<Rightarrow> Some (result\<lparr>Links := m\<rparr>))
      else Some result)"

definition onSocialIcon :: "Result \<Rightarrow> string \<times> string \<Rightarrow> Result option" where
  "onSocialIcon result e =
     (let iconName = fst e; href = snd e in
      if iconName \<noteq> [] \<and> href \<noteq> [] then
        (case map_assign (IconLinks result) iconName href of
           None \<Rightarrow> None
         | Some m \<Rightarrow> Some (result\<lparr>IconLinks := m\<rparr>))
      else Some result)"

definition onProfileTitle :: "Result \<Rightarrow> string \<Rightarrow> Result option" where
  "onProfileTitle result text = Some (result\<lparr>ProfileName := text\<rparr>)"

definition onProfileImage :: "Result \<Rightarrow> string \<Rightarrow> Result option" where
  "onProfileImage result imgSrc =
     (if imgSrc \<noteq> [] then Some (result\<lparr>ProfileImg := imgSrc\<rparr>) else Some result)"

text \<open>
  One callback over all its elements, in document order; a panic (\<open>None\<close>) ends the run.
\<close>

fun each :: "(Result \<Rightarrow> 'a \<Rightarrow> Result option) \<Rightarrow> 'a list \<Rightarrow> Result \<Rightarrow> Result option" where
  "each f [] result = Some result"
| "each f (e # es) result = (case f result e of None \<Rightarrow> None | Some result' \<Rightarrow> each f es result')"

text \<open>
  The collector runs the callbacks in the order of their registration, each over all the
  elements its selector matches.
\<close>

definition run_callbacks :: "document \<Rightarrow> Result \<Rightarrow> Result option" where
  "run_callbacks d result =
     Option.bind (each onTitle (titles d) result) (\<lambda>r1.
     Option.bind (each onLinkButton (link_buttons d) r1) (\<lambda>r2.
     Option.bind (each onSocialIcon (social_icons d) r2) (\<lambda>r3.
     Option.bind (each onProfileTitle (profile_titles d) r3) (\<lambda>r4.
     each onProfileImage (profile_images d) r4))))"

section \<open>crawlLinktreeProfile\<close>

text \<open>
  The errors the program makes, one constructor for each \<^verbatim>\<open>fmt.Errorf\<close> or
  \<^verbatim>\<open>errors.New\<close> of the source, with the values that are formatted into the message. An
  error of a library is the text of its message.
\<close>

datatype error =
    VisitFailed string lib_error
  | MissingRequired
  | MarshalFailed lib_error
  | WriteFailed lib_error
  | GetFailed string lib_error
  | BadStatus int
  | CreateFailed string lib_error
  | CopyFailed lib_error

text \<open>The record as it is right after the two \<^verbatim>\<open>make\<close> calls.\<close>

definition Result_init :: Result where
  "Result_init = Result_zero\<lparr>Links := Some fmempty, IconLinks := Some fmempty\<rparr>"

text \<open>
  The function returns a pair, as in Go. The outer \<open>option\<close> is \<open>None\<close> when a callback
  panics. The third component is the line the \<^verbatim>\<open>OnRequest\<close> callback prints, if it ran.
\<close>

definition crawlLinktreeProfile ::
  "(string \<Rightarrow> visit_outcome) \<Rightarrow> string \<Rightarrow> (Result \<times> error option \<times> string option) option" where
  "crawlLinktreeProfile visit link =
     (let out = visit link in
      case run_callbacks (matched out) Result_init of
        None \<Rightarrow> None
      | Some result \<Rightarrow>
          (case visit_err out of
             Some err \<Rightarrow> Some (Result_zero, Some (VisitFailed link err), on_request out)
           | None \<Rightarrow>
               if Title result = [] \<or> ProfileName result = []
               then Some (Result_zero, Some MissingRequired, on_request out)
               else Some (result, None, on_request out)))"

section \<open>encoding/json: strings\<close>

text \<open>
  A Go string is a sequence of bytes; \<open>string\<close> (a list of 8-bit characters) is the
  same, and \<open>byte\<close> reads a character as a number. A rune is a natural number.
\<close>

abbreviation byte :: "char \<Rightarrow> nat" where
  "byte \<equiv> of_char"

definition RuneError :: nat where
  "RuneError = 0xFFFD"

text \<open>
  \<^verbatim>\<open>utf8.DecodeRuneInString\<close>: the first rune of a string and the number of bytes it
  takes. The first byte gives the length of the sequence and the range that the second
  byte must lie in (the tables \<^verbatim>\<open>first\<close> and \<^verbatim>\<open>acceptRanges\<close> of the library);
  an invalid or incomplete sequence is the rune \<open>RuneError\<close> of width 1.
\<close>

definition rune_len :: "nat \<Rightarrow> nat" where
  "rune_len s0 =
     (if 0xC2 \<le> s0 \<and> s0 \<le> 0xDF then 2
      else if 0xE0 \<le> s0 \<and> s0 \<le> 0xEF then 3
      else if 0xF0 \<le> s0 \<and> s0 \<le> 0xF4 then 4
      else 1)"

definition accept_lo :: "nat \<Rightarrow> nat" where
  "accept_lo s0 = (if s0 = 0xE0 then 0xA0 else if s0 = 0xF0 then 0x90 else 0x80)"

definition accept_hi :: "nat \<Rightarrow> nat" where
  "accept_hi s0 = (if s0 = 0xED then 0x9F else if s0 = 0xF4 then 0x8F else 0xBF)"

definition DecodeRuneInString :: "string \<Rightarrow> nat \<times> nat" where
  "DecodeRuneInString s =
     (let n = length s in
      if n < 1 then (RuneError, 0)
      else
        let s0 = byte (s ! 0) in
        if s0 < 0x80 then (s0, 1)
        else if rune_len s0 = 1 then (RuneError, 1)
        else if n < rune_len s0 then (RuneError, 1)
        else
          let s1 = byte (s ! 1) in
          if s1 < accept_lo s0 \<or> accept_hi s0 < s1 then (RuneError, 1)
          else if rune_len s0 \<le> 2 then ((s0 mod 0x20) * 0x40 + s1 mod 0x40, 2)
          else
            let s2 = byte (s ! 2) in
            if s2 < 0x80 \<or> 0xBF < s2 then (RuneError, 1)
            else if rune_len s0 \<le> 3
            then ((s0 mod 0x10) * 0x1000 + (s1 mod 0x40) * 0x40 + s2 mod 0x40, 3)
            else
              let s3 = byte (s ! 3) in
              if s3 < 0x80 \<or> 0xBF < s3 then (RuneError, 1)
              else ((s0 mod 8) * 0x40000 + (s1 mod 0x40) * 0x1000 + (s2 mod 0x40) * 0x40
                      + s3 mod 0x40, 4))"

text \<open>
  The string encoder of \<^verbatim>\<open>encoding/json\<close> with HTML escaping on, as \<^verbatim>\<open>json.Marshal\<close>
  and \<^verbatim>\<open>json.MarshalIndent\<close> use it. Of the bytes below \<open>0x80\<close>, the control characters,
  the double quote, the backslash and the characters \<open><\<close>, \<open>>\<close> and \<open>&\<close> are written as
  escapes; the others are copied.
\<close>

definition hex :: "nat \<Rightarrow> char" where
  "hex n = ''0123456789abcdef'' ! n"

definition htmlSafeSet :: "char \<Rightarrow> bool" where
  "htmlSafeSet b \<longleftrightarrow>
     0x20 \<le> byte b \<and> byte b < 0x80
     \<and> b \<noteq> CHR 0x22 \<and> b \<noteq> CHR 0x5C \<and> b \<noteq> CHR ''<'' \<and> b \<noteq> CHR ''>'' \<and> b \<noteq> CHR ''&''"

definition escape_byte :: "char \<Rightarrow> string" where
  "escape_byte b =
     (if b = CHR 0x5C \<or> b = CHR 0x22 then [CHR 0x5C, b]
      else if b = CHR 0x08 then [CHR 0x5C, CHR ''b'']
      else if b = CHR 0x0C then [CHR 0x5C, CHR ''f'']
      else if b = CHR 0x0A then [CHR 0x5C, CHR ''n'']
      else if b = CHR 0x0D then [CHR 0x5C, CHR ''r'']
      else if b = CHR 0x09 then [CHR 0x5C, CHR ''t'']
      else [CHR 0x5C, CHR ''u'', CHR ''0'', CHR ''0'', hex (byte b div 0x10), hex (byte b mod 0x10)])"

text \<open>
  A rune of a non-empty string takes at least one byte: the loop of the encoder advances.
\<close>

lemma rune_len_range: "1 \<le> rune_len x \<and> rune_len x \<le> 4"
  by (simp add: rune_len_def)

lemma DecodeRuneInString_size:
  assumes "s \<noteq> []"
  shows "1 \<le> snd (DecodeRuneInString s) \<and> snd (DecodeRuneInString s) \<le> length s"
proof -
  have n: "1 \<le> length s"
    using assms by (cases s) simp_all
  have r: "1 \<le> rune_len (byte (s ! 0)) \<and> rune_len (byte (s ! 0)) \<le> 4"
    by (rule rune_len_range)
  show ?thesis
    unfolding DecodeRuneInString_def Let_def using n r by (auto split: if_splits)
qed

lemma DecodeRuneInString_pos: "(c, sz) = DecodeRuneInString (b # t) \<Longrightarrow> 0 < sz"
  using DecodeRuneInString_size [of "b # t"] by (cases "DecodeRuneInString (b # t)") simp

text \<open>
  The loop of \<^verbatim>\<open>appendString\<close> from the current position to the end of the string. A
  byte from \<open>0x80\<close> on starts a rune, decoded from at most four bytes: an invalid byte is
  written as the escape of U+FFFD, the separators U+2028 and U+2029 as escapes, and any
  other rune as its own bytes. \<open>appendString\<close> puts the result between double quotes.
  This is the encoder of the package \<^verbatim>\<open>encoding/json\<close> that the program imports, in its
  first version; an implementation that writes the three bytes of U+FFFD instead of the
  six characters of the escape differs from it only on strings that are not valid UTF-8,
  and both texts denote the same string.
\<close>

function appendString_loop :: "string \<Rightarrow> string" where
  "appendString_loop [] = []"
| "appendString_loop (b # bs) =
     (if byte b < 0x80 then
        (if htmlSafeSet b then [b] else escape_byte b) @ appendString_loop bs
      else
        (case DecodeRuneInString (take 4 (b # bs)) of (c, sz) \<Rightarrow>
           if c = RuneError \<and> sz = 1 then
             [CHR 0x5C, CHR ''u'', CHR ''f'', CHR ''f'', CHR ''f'', CHR ''d'']
               @ appendString_loop (drop sz (b # bs))
           else if c = 0x2028 \<or> c = 0x2029 then
             [CHR 0x5C, CHR ''u'', CHR ''2'', CHR ''0'', CHR ''2'', hex (c mod 0x10)]
               @ appendString_loop (drop sz (b # bs))
           else take sz (b # bs) @ appendString_loop (drop sz (b # bs))))"
  by pat_completeness auto
termination
  by (relation "measure length") (auto dest!: DecodeRuneInString_pos)

definition appendString :: "string \<Rightarrow> string" where
  "appendString src = CHR 0x22 # appendString_loop src @ [CHR 0x22]"

section \<open>encoding/json: values\<close>

text \<open>
  The JSON values that the encoder produces for a \<^verbatim>\<open>Result\<close>, and their indented text:
  what \<^verbatim>\<open>json.Indent\<close> makes of the compact encoding. Every member of a non-empty
  object starts a line, made of the prefix and one copy of the indent for each level of
  nesting; a colon is followed by a space; an empty object is \<open>{}\<close>. The text neither
  starts with the prefix nor ends with a newline.
\<close>

datatype json = JNull | JString string | JObject "(string \<times> json) list"

definition newline_indent :: "string \<Rightarrow> string \<Rightarrow> nat \<Rightarrow> string" where
  "newline_indent prefix indent depth = CHR 0x0A # prefix @ concat (replicate depth indent)"

fun render :: "string \<Rightarrow> string \<Rightarrow> nat \<Rightarrow> json \<Rightarrow> string"
  and render_members :: "string \<Rightarrow> string \<Rightarrow> nat \<Rightarrow> (string \<times> json) list \<Rightarrow> string" where
  "render prefix indent depth JNull = ''null''"
| "render prefix indent depth (JString s) = appendString s"
| "render prefix indent depth (JObject []) = ''{}''"
| "render prefix indent depth (JObject (m # ms)) =
     ''{'' @ newline_indent prefix indent (Suc depth)
       @ render_members prefix indent (Suc depth) (m # ms)
       @ newline_indent prefix indent depth @ ''}''"
| "render_members prefix indent depth [] = []"
| "render_members prefix indent depth [(k, v)] =
     appendString k @ '': '' @ render prefix indent depth v"
| "render_members prefix indent depth ((k, v) # m # ms) =
     appendString k @ '': '' @ render prefix indent depth v @ '','' 
       @ newline_indent prefix indent depth @ render_members prefix indent depth (m # ms)"

text \<open>
  A map is written as an object with its keys sorted (as byte strings), a nil map as
  \<open>null\<close>.
\<close>

definition map_value :: "gomap \<Rightarrow> json" where
  "map_value m =
     (case m of
        None \<Rightarrow> JNull
      | Some f \<Rightarrow> JObject (map (\<lambda>(k, v). (k, JString v)) (sorted_list_of_fmap f)))"

text \<open>
  A struct is written as an object with one member for each field, in the order of the
  declaration, under the name its \<^verbatim>\<open>json\<close> tag gives.
\<close>

definition Result_value :: "Result \<Rightarrow> json" where
  "Result_value v =
     JObject [(''links'', map_value (Links v)),
              (''icon_links'', map_value (IconLinks v)),
              (''title'', JString (Title v)),
              (''profile_name'', JString (ProfileName v)),
              (''profile_img'', JString (ProfileImg v))]"

text \<open>
  \<^verbatim>\<open>json.MarshalIndent(v, prefix, indent)\<close> for a \<^verbatim>\<open>Result\<close>. No value of this type
  makes the encoder fail; the error result is kept, since the caller tests it.
\<close>

definition json_MarshalIndent :: "Result \<Rightarrow> string \<Rightarrow> string \<Rightarrow> lib_error + string" where
  "json_MarshalIndent v prefix indent = Inr (render prefix indent 0 (Result_value v))"

section \<open>path/filepath\<close>

text \<open>
  \<^verbatim>\<open>filepath.Join\<close> and \<^verbatim>\<open>filepath.Clean\<close> where the separator is the slash. A path is
  cut at its separators; empty elements and \<open>.\<close> are dropped, \<open>..\<close> removes the element
  before it when there is one to remove, is kept at the front of a relative path and
  dropped at the root; the elements that remain are joined again.
\<close>

fun split_sep :: "string \<Rightarrow> string list" where
  "split_sep [] = [[]]"
| "split_sep (c # cs) =
     (if c = CHR ''/'' then [] # split_sep cs
      else (case split_sep cs of [] \<Rightarrow> [[c]] | e # es \<Rightarrow> (c # e) # es))"

fun join_sep :: "string list \<Rightarrow> string" where
  "join_sep [] = []"
| "join_sep [e] = e"
| "join_sep (e # e' # es) = e @ ''/'' @ join_sep (e' # es)"

definition clean_step :: "bool \<Rightarrow> string list \<Rightarrow> string \<Rightarrow> string list" where
  "clean_step rooted out e =
     (if e = [] \<or> e = ''.'' then out
      else if e = ''..'' then
        (if out \<noteq> [] \<and> last out \<noteq> ''..'' then butlast out
         else if \<not> rooted then out @ [''..'']
         else out)
      else out @ [e])"

definition filepath_Clean :: "string \<Rightarrow> string" where
  "filepath_Clean path =
     (if path = [] then ''.''
      else
        let rooted = (hd path = CHR ''/'');
            out = foldl (clean_step rooted) [] (split_sep path);
            s = (if rooted then ''/'' else []) @ join_sep out
        in if s = [] then ''.'' else s)"

definition filepath_Join :: "string list \<Rightarrow> string" where
  "filepath_Join elem =
     (case dropWhile (\<lambda>e. e = []) elem of
        [] \<Rightarrow> []
      | e # es \<Rightarrow> filepath_Clean (join_sep (e # es)))"

section \<open>The world of the program\<close>

text \<open>
  What the program reads from its environment: the command line, the outcome of the visit
  of a URL, the answer to an HTTP GET, and the file operations that fail. A file operation
  on a path fails either when the file is opened (nothing is written) or after a number
  of bytes have been written. A response carries its status, the bytes of the body that
  can be read, and the error (if any) that ends the reading.
\<close>

record response =
  StatusCode :: int
  Body :: string
  BodyErr :: "lib_error option"

datatype fault = OpenFault lib_error | WriteFault nat lib_error

record env =
  os_Args :: "string list"
  collector_Visit :: "string \<Rightarrow> visit_outcome"
  http_Get :: "string \<Rightarrow> lib_error + response"
  file_fault :: "string \<Rightarrow> fault option"

text \<open>
  What the program does to the world: the lines it prints, the requests it sends and the
  files it opens are recorded in order, and \<open>files\<close> holds the contents of the files.
\<close>

datatype message =
    Usage
  | Visiting string
  | DataSaved string
  | ImageSaved string
  | ErrorDuringCrawling error
  | FailedToSaveResult error
  | FailedToDownloadImage error

datatype event =
    Stdout message
  | Stderr message
  | HttpGet string
  | WriteFile string
  | Create string

record world =
  files :: "string \<rightharpoonup> string"
  events :: "event list"

definition emit :: "event \<Rightarrow> world \<Rightarrow> world" where
  "emit e w = w\<lparr>events := events w @ [e]\<rparr>"

definition store :: "string \<Rightarrow> string \<Rightarrow> world \<Rightarrow> world" where
  "store name data w = w\<lparr>files := (files w)(name \<mapsto> data)\<rparr>"

text \<open>
  \<^verbatim>\<open>os.WriteFile\<close>, \<^verbatim>\<open>os.Create\<close> and \<^verbatim>\<open>io.Copy\<close> (from the body of a response to
  the file just created). The permission bits play no part.
\<close>

definition os_WriteFile :: "env \<Rightarrow> string \<Rightarrow> string \<Rightarrow> world \<Rightarrow> lib_error option \<times> world" where
  "os_WriteFile env name data w =
     (let w1 = emit (WriteFile name) w in
      case file_fault env name of
        None \<Rightarrow> (None, store name data w1)
      | Some (OpenFault e) \<Rightarrow> (Some e, w1)
      | Some (WriteFault n e) \<Rightarrow> (Some e, store name (take n data) w1))"

definition os_Create :: "env \<Rightarrow> string \<Rightarrow> world \<Rightarrow> lib_error option \<times> world" where
  "os_Create env name w =
     (let w1 = emit (Create name) w in
      case file_fault env name of
        Some (OpenFault e) \<Rightarrow> (Some e, w1)
      | _ \<Rightarrow> (None, store name [] w1))"

definition io_Copy :: "env \<Rightarrow> string \<Rightarrow> response \<Rightarrow> world \<Rightarrow> lib_error option \<times> world" where
  "io_Copy env name resp w =
     (case file_fault env name of
        Some (WriteFault n e) \<Rightarrow> (Some e, store name (take n (Body resp)) w)
      | _ \<Rightarrow> (BodyErr resp, store name (Body resp) w))"

section \<open>saveResultToFile, downloadProfileImage, main\<close>

text \<open>
  The three functions of the program, each returning its error (\<open>None\<close> for \<^verbatim>\<open>nil\<close>)
  and the world it leaves. \<open>main\<close> returns \<open>None\<close> when the program panics.
\<close>

definition saveResultToFile :: "env \<Rightarrow> Result \<Rightarrow> string \<Rightarrow> world \<Rightarrow> error option \<times> world" where
  "saveResultToFile env result fileName w =
     (let outputPath = filepath_Join [''.'', fileName] in
      case json_MarshalIndent result [] ''  '' of
        Inl err \<Rightarrow> (Some (MarshalFailed err), w)
      | Inr jsonData \<Rightarrow>
          (case os_WriteFile env outputPath jsonData w of
             (Some err, w') \<Rightarrow> (Some (WriteFailed err), w')
           | (None, w') \<Rightarrow> (None, emit (Stdout (DataSaved outputPath)) w')))"

definition downloadProfileImage :: "env \<Rightarrow> string \<Rightarrow> string \<Rightarrow> world \<Rightarrow> error option \<times> world" where
  "downloadProfileImage env imgURL fileName w =
     (let w1 = emit (HttpGet imgURL) w in
      case http_Get env imgURL of
        Inl err \<Rightarrow> (Some (GetFailed imgURL err), w1)
      | Inr response \<Rightarrow>
          if StatusCode response \<noteq> 200 then (Some (BadStatus (StatusCode response)), w1)
          else
            (case os_Create env fileName w1 of
               (Some err, w2) \<Rightarrow> (Some (CreateFailed fileName err), w2)
             | (None, w2) \<Rightarrow>
                 (case io_Copy env fileName response w2 of
                    (Some err, w3) \<Rightarrow> (Some (CopyFailed err), w3)
                  | (None, w3) \<Rightarrow> (None, emit (Stdout (ImageSaved fileName)) w3))))"

definition main :: "env \<Rightarrow> world \<Rightarrow> world option" where
  "main env w =
     (if length (os_Args env) < 2 then Some (emit (Stdout Usage) w)
      else
        let profileName = os_Args env ! 1;
            link = ''https://linktr.ee/'' @ profileName
        in
        case crawlLinktreeProfile (collector_Visit env) link of
          None \<Rightarrow> None
        | Some (result, crawl_err, visiting) \<Rightarrow>
            let w1 = (case visiting of None \<Rightarrow> w | Some u \<Rightarrow> emit (Stdout (Visiting u)) w) in
            (case crawl_err of
               Some err \<Rightarrow> Some (emit (Stderr (ErrorDuringCrawling err)) w1)
             | None \<Rightarrow>
                 (case saveResultToFile env result (ProfileName result @ ''.json'') w1 of
                    (Some err, w2) \<Rightarrow> Some (emit (Stderr (FailedToSaveResult err)) w2)
                  | (None, w2) \<Rightarrow>
                      if ProfileImg result \<noteq> [] then
                        (case downloadProfileImage env (ProfileImg result) (profileName @ ''.jpg'') w2 of
                           (Some err, w3) \<Rightarrow> Some (emit (Stderr (FailedToDownloadImage err)) w3)
                         | (None, w3) \<Rightarrow> Some w3)
                      else Some w2)))"

section \<open>Valid UTF-8\<close>

text \<open>
  \<^verbatim>\<open>utf8.ValidString\<close>: every byte of the string belongs to a sequence that
  \<open>DecodeRuneInString\<close> accepts. The encoder writes such a string without loss.
\<close>

function utf8_ValidString :: "string \<Rightarrow> bool" where
  "utf8_ValidString [] = True"
| "utf8_ValidString (b # bs) =
     (if byte b < 0x80 then utf8_ValidString bs
      else
        (case DecodeRuneInString (take 4 (b # bs)) of (c, sz) \<Rightarrow>
           \<not> (c = RuneError \<and> sz = 1) \<and> utf8_ValidString (drop sz (b # bs))))"
  by pat_completeness auto
termination
  by (relation "measure length") (auto dest!: DecodeRuneInString_pos)

text \<open>
  What the encoder makes of a string: each byte that belongs to no valid sequence is
  replaced by the three bytes of U+FFFD, everything else is kept.
\<close>

function coerce_utf8 :: "string \<Rightarrow> string" where
  "coerce_utf8 [] = []"
| "coerce_utf8 (b # bs) =
     (if byte b < 0x80 then b # coerce_utf8 bs
      else
        (case DecodeRuneInString (take 4 (b # bs)) of (c, sz) \<Rightarrow>
           if c = RuneError \<and> sz = 1 then
             [CHR 0xEF, CHR 0xBF, CHR 0xBD] @ coerce_utf8 (drop sz (b # bs))
           else take sz (b # bs) @ coerce_utf8 (drop sz (b # bs))))"
  by pat_completeness auto
termination
  by (relation "measure length") (auto dest!: DecodeRuneInString_pos)

definition valid_map :: "gomap \<Rightarrow> bool" where
  "valid_map m =
     (case m of
        None \<Rightarrow> True
      | Some f \<Rightarrow> fmpred (\<lambda>k v. utf8_ValidString k \<and> utf8_ValidString v) f)"

definition valid_Result :: "Result \<Rightarrow> bool" where
  "valid_Result r \<longleftrightarrow>
     valid_map (Links r) \<and> valid_map (IconLinks r) \<and> utf8_ValidString (Title r)
     \<and> utf8_ValidString (ProfileName r) \<and> utf8_ValidString (ProfileImg r)"

section \<open>Reading the JSON text back\<close>

text \<open>
  Modelled from the spec: the repository only writes the JSON text and has no function
  that reads it back, and the specification names \<open>deserialize\<close> without defining it.
  It is modelled as the reader of the JSON syntax that the encoder uses (objects, strings
  and \<open>null\<close>), followed by the assignment of the members to the fields of a
  \<^verbatim>\<open>Result\<close> by the names of its \<^verbatim>\<open>json\<close> tags. \<open>None\<close> is a syntax error or a
  member of the wrong type.
\<close>

definition is_space :: "char \<Rightarrow> bool" where
  "is_space c \<longleftrightarrow> c = CHR '' '' \<or> c = CHR 0x0A \<or> c = CHR 0x0D \<or> c = CHR 0x09"

definition skip_space :: "string \<Rightarrow> string" where
  "skip_space s = dropWhile is_space s"

text \<open>
  Modelled from the spec: the four hexadecimal digits of a \<^verbatim>\<open>\u\<close> escape, and the
  UTF-8 bytes of a code point (U+FFFD for a surrogate or a value beyond U+10FFFF).
\<close>

definition hex_value :: "char \<Rightarrow> nat option" where
  "hex_value c =
     (if CHR ''0'' \<le> c \<and> c \<le> CHR ''9'' then Some (byte c - byte (CHR ''0''))
      else if CHR ''a'' \<le> c \<and> c \<le> CHR ''f'' then Some (byte c - byte (CHR ''a'') + 10)
      else if CHR ''A'' \<le> c \<and> c \<le> CHR ''F'' then Some (byte c - byte (CHR ''A'') + 10)
      else None)"

definition getu4 :: "string \<Rightarrow> nat option" where
  "getu4 s =
     (case s of
        b # u # h1 # h2 # h3 # h4 # _ \<Rightarrow>
          if b = CHR 0x5C \<and> u = CHR ''u'' then
            (case (hex_value h1, hex_value h2, hex_value h3, hex_value h4) of
               (Some a, Some b, Some c, Some d) \<Rightarrow> Some (a * 0x1000 + b * 0x100 + c * 0x10 + d)
             | _ \<Rightarrow> None)
          else None
      | _ \<Rightarrow> None)"

definition EncodeRune :: "nat \<Rightarrow> string" where
  "EncodeRune r =
     (if r < 0x80 then [char_of r]
      else if r < 0x800 then [char_of (0xC0 + r div 0x40), char_of (0x80 + r mod 0x40)]
      else if (0xD800 \<le> r \<and> r < 0xE000) \<or> 0x10FFFF < r then [CHR 0xEF, CHR 0xBF, CHR 0xBD]
      else if r < 0x10000 then
        [char_of (0xE0 + r div 0x1000), char_of (0x80 + (r div 0x40) mod 0x40),
         char_of (0x80 + r mod 0x40)]
      else
        [char_of (0xF0 + r div 0x40000), char_of (0x80 + (r div 0x1000) mod 0x40),
         char_of (0x80 + (r div 0x40) mod 0x40), char_of (0x80 + r mod 0x40)])"

definition simple_escape :: "char \<Rightarrow> char option" where
  "simple_escape e =
     (if e = CHR 0x22 \<or> e = CHR 0x5C \<or> e = CHR ''/'' then Some e
      else if e = CHR ''b'' then Some (CHR 0x08)
      else if e = CHR ''f'' then Some (CHR 0x0C)
      else if e = CHR ''n'' then Some (CHR 0x0A)
      else if e = CHR ''r'' then Some (CHR 0x0D)
      else if e = CHR ''t'' then Some (CHR 0x09)
      else None)"

definition emit_bytes :: "string \<Rightarrow> (string \<times> string) option \<Rightarrow> (string \<times> string) option" where
  "emit_bytes bs r = map_option (\<lambda>(s, rest). (bs @ s, rest)) r"

text \<open>
  Modelled from the spec: the characters of a string up to its closing quote, with the
  escapes resolved. A \<^verbatim>\<open>\u\<close> escape of a high surrogate followed by one of a low
  surrogate is one code point; any other surrogate is U+FFFD. The result is the string and
  the text after the closing quote.
\<close>

function parse_chars :: "string \<Rightarrow> (string \<times> string) option" where
  "parse_chars [] = None"
| "parse_chars (c # cs) =
     (if c = CHR 0x22 then Some ([], cs)
      else if c = CHR 0x5C then
        (case cs of
           [] \<Rightarrow> None
         | e # cs' \<Rightarrow>
             if e = CHR ''u'' then
               (case getu4 (c # cs) of
                  None \<Rightarrow> None
                | Some rr \<Rightarrow>
                    if 0xD800 \<le> rr \<and> rr < 0xE000 then
                      (case getu4 (drop 6 (c # cs)) of
                         None \<Rightarrow> emit_bytes (EncodeRune RuneError) (parse_chars (drop 6 (c # cs)))
                       | Some rr1 \<Rightarrow>
                           if rr < 0xDC00 \<and> 0xDC00 \<le> rr1 \<and> rr1 < 0xE000 then
                             emit_bytes
                               (EncodeRune (0x10000 + (rr - 0xD800) * 0x400 + (rr1 - 0xDC00)))
                               (parse_chars (drop 12 (c # cs)))
                           else emit_bytes (EncodeRune RuneError) (parse_chars (drop 6 (c # cs))))
                    else emit_bytes (EncodeRune rr) (parse_chars (drop 6 (c # cs))))
             else
               (case simple_escape e of
                  None \<Rightarrow> None
                | Some b \<Rightarrow> emit_bytes [b] (parse_chars cs')))
      else if byte c < 0x20 then None
      else emit_bytes [c] (parse_chars cs))"
  by pat_completeness auto
termination
  by (relation "measure length") auto

text \<open>
  Modelled from the spec: a value and the members of an object. The first argument bounds
  the number of nested calls; \<open>json_parse\<close> passes the length of the text, which is
  always enough.
\<close>

fun parse_value :: "nat \<Rightarrow> string \<Rightarrow> (json \<times> string) option"
  and parse_members :: "nat \<Rightarrow> string \<Rightarrow> ((string \<times> json) list \<times> string) option" where
  "parse_value 0 s = None"
| "parse_value (Suc n) s =
     (case s of
        [] \<Rightarrow> None
      | c # cs \<Rightarrow>
          if c = CHR 0x22 then map_option (\<lambda>(x, rest). (JString x, rest)) (parse_chars cs)
          else if c = CHR ''n'' then
            (if take 3 cs = ''ull'' then Some (JNull, drop 3 cs) else None)
          else if c = CHR ''{'' then
            (case skip_space cs of
               [] \<Rightarrow> None
             | c' # cs' \<Rightarrow>
                 if c' = CHR ''}'' then Some (JObject [], cs')
                 else map_option (\<lambda>(ms, rest). (JObject ms, rest)) (parse_members n (c' # cs')))
          else None)"
| "parse_members 0 s = None"
| "parse_members (Suc n) s =
     (case s of
        [] \<Rightarrow> None
      | c # cs \<Rightarrow>
          if c \<noteq> CHR 0x22 then None
          else
            (case parse_chars cs of
               None \<Rightarrow> None
             | Some (k, s1) \<Rightarrow>
                 (case skip_space s1 of
                    [] \<Rightarrow> None
                  | c1 # s2 \<Rightarrow>
                      if c1 \<noteq> CHR '':'' then None
                      else
                        (case parse_value n (skip_space s2) of
                           None \<Rightarrow> None
                         | Some (v, s3) \<Rightarrow>
                             (case skip_space s3 of
                                [] \<Rightarrow> None
                              | c3 # s4 \<Rightarrow>
                                  if c3 = CHR ''}'' then Some ([(k, v)], s4)
                                  else if c3 = CHR '','' then
                                    map_option (\<lambda>(ms, rest). ((k, v) # ms, rest))
                                      (parse_members n (skip_space s4))
                                  else None)))))"

definition json_parse :: "string \<Rightarrow> json option" where
  "json_parse s =
     (case parse_value (length s) (skip_space s) of
        None \<Rightarrow> None
      | Some (j, rest) \<Rightarrow> if skip_space rest = [] then Some j else None)"

text \<open>
  Modelled from the spec: a map field takes \<open>null\<close> (the nil map) or an object whose
  values are all strings, a later member overwriting an earlier one with the same key; a
  string field takes a string, and is left as it is by \<open>null\<close>. Members with other
  names are ignored. The decoding starts from the zero value.
\<close>

definition map_of_json :: "json \<Rightarrow> gomap option" where
  "map_of_json j =
     (case j of
        JNull \<Rightarrow> Some None
      | JString s \<Rightarrow> None
      | JObject ms \<Rightarrow>
          if \<forall>m\<in>set ms. (case snd m of JString _ \<Rightarrow> True | _ \<Rightarrow> False)
          then Some (Some (fold (\<lambda>m. fmupd (fst m) (case snd m of JString x \<Rightarrow> x | _ \<Rightarrow> [])) ms fmempty))
          else None)"

definition set_field :: "string \<times> json \<Rightarrow> Result \<Rightarrow> Result option" where
  "set_field m r =
     (let k = fst m; j = snd m in
      if k = ''links'' then map_option (\<lambda>x. r\<lparr>Links := x\<rparr>) (map_of_json j)
      else if k = ''icon_links'' then map_option (\<lambda>x. r\<lparr>IconLinks := x\<rparr>) (map_of_json j)
      else if k = ''title'' then
        (case j of JString s \<Rightarrow> Some (r\<lparr>Title := s\<rparr>) | JNull \<Rightarrow> Some r | _ \<Rightarrow> None)
      else if k = ''profile_name'' then
        (case j of JString s \<Rightarrow> Some (r\<lparr>ProfileName := s\<rparr>) | JNull \<Rightarrow> Some r | _ \<Rightarrow> None)
      else if k = ''profile_img'' then
        (case j of JString s \<Rightarrow> Some (r\<lparr>ProfileImg := s\<rparr>) | JNull \<Rightarrow> Some r | _ \<Rightarrow> None)
      else Some r)"

fun set_fields :: "(string \<times> json) list \<Rightarrow> Result \<Rightarrow> Result option" where
  "set_fields [] r = Some r"
| "set_fields (m # ms) r = (case set_field m r of None \<Rightarrow> None | Some r' \<Rightarrow> set_fields ms r')"

definition Result_of_json :: "json \<Rightarrow> Result option" where
  "Result_of_json j = (case j of JObject ms \<Rightarrow> set_fields ms Result_zero | _ \<Rightarrow> None)"

text \<open>
  Modelled from the spec: \<open>deserialize\<close>, from the text of the JSON file to the record.
\<close>

definition deserialize :: "string \<Rightarrow> Result option" where
  "deserialize s = (case json_parse s of None \<Rightarrow> None | Some j \<Rightarrow> Result_of_json j)"

text \<open>
  The value the reader returns for the text of a value: the same value with every string
  coerced to valid UTF-8. The bound \<open>need\<close> is the number of nested calls the reader
  makes on the text of a value.
\<close>

fun coerce_json :: "json \<Rightarrow> json"
  and coerce_members :: "(string \<times> json) list \<Rightarrow> (string \<times> json) list" where
  "coerce_json JNull = JNull"
| "coerce_json (JString s) = JString (coerce_utf8 s)"
| "coerce_json (JObject ms) = JObject (coerce_members ms)"
| "coerce_members [] = []"
| "coerce_members ((k, v) # ms) = (coerce_utf8 k, coerce_json v) # coerce_members ms"

fun need :: "json \<Rightarrow> nat"
  and need_members :: "(string \<times> json) list \<Rightarrow> nat" where
  "need JNull = 1"
| "need (JString s) = 1"
| "need (JObject ms) = Suc (need_members ms)"
| "need_members [] = 0"
| "need_members ((k, v) # ms) = Suc (need v + need_members ms)"

definition spaces :: "string \<Rightarrow> bool" where
  "spaces s \<longleftrightarrow> (\<forall>c\<in>set s. is_space c)"

section \<open>Notions used in the statements\<close>

text \<open>
  Closed forms for the result of the callbacks: the text of the last element (empty when
  there is none), the pairs a map callback keeps, and the map after storing a list of
  pairs one after the other.
\<close>

definition last_text :: "string list \<Rightarrow> string" where
  "last_text ts = (if ts = [] then [] else last ts)"

definition kept :: "(string \<times> string) list \<Rightarrow> (string \<times> string) list" where
  "kept es = filter (\<lambda>e. fst e \<noteq> [] \<and> snd e \<noteq> []) es"

definition store_all :: "(string \<times> string) list \<Rightarrow> (string, string) fmap \<Rightarrow> (string, string) fmap" where
  "store_all es m = fold (\<lambda>e. fmupd (fst e) (snd e)) es m"

text \<open>A record is initialized when neither of its maps is nil.\<close>

definition initialized :: "Result \<Rightarrow> bool" where
  "initialized r \<longleftrightarrow> Links r \<noteq> None \<and> IconLinks r \<noteq> None"

text \<open>The keys of an object, in the order in which they are written.\<close>

definition object_keys :: "json \<Rightarrow> string list" where
  "object_keys j = (case j of JObject ms \<Rightarrow> map fst ms | _ \<Rightarrow> [])"

section \<open>Examples\<close>

text \<open>
  The pages of the scenarios of the specification: A has a title, a profile name and one
  link button; B is A with a profile image; C is A without the profile-title element.
\<close>

definition page_A :: document where
  "page_A = \<lparr>titles = [''Jane | Linktree''],
              link_buttons = [(''My Site'', ''https://example.com'')],
              social_icons = [],
              profile_titles = [''Jane Doe''],
              profile_images = []\<rparr>"

definition page_B :: document where
  "page_B = page_A\<lparr>profile_images := [''https://cdn.example/img.jpg'']\<rparr>"

definition page_C :: document where
  "page_C = page_A\<lparr>profile_titles := []\<rparr>"

text \<open>
  A visit that hands the elements of a page to the callbacks and succeeds, and one that
  hands them over and then returns an error.
\<close>

definition visit_ok :: "document \<Rightarrow> string \<Rightarrow> visit_outcome" where
  "visit_ok d link = \<lparr>on_request = Some link, matched = d, visit_err = None\<rparr>"

definition visit_broken :: "document \<Rightarrow> lib_error \<Rightarrow> string \<Rightarrow> visit_outcome" where
  "visit_broken d e link = \<lparr>on_request = Some link, matched = d, visit_err = Some e\<rparr>"

text \<open>
  An environment in which the program is called with one argument, the visit succeeds on
  the given page and no file operation fails; two answers to the image request; and the
  world before the run, with no file and no event.
\<close>

definition env_of :: "string \<Rightarrow> document \<Rightarrow> (string \<Rightarrow> lib_error + response) \<Rightarrow> env" where
  "env_of ident d get =
     \<lparr>os_Args = [''crawler'', ident], collector_Visit = visit_ok d, http_Get = get,
      file_fault = (\<lambda>_. None)\<rparr>"

definition get_ok :: "string \<Rightarrow> lib_error + response" where
  "get_ok url = Inr \<lparr>StatusCode = 200, Body = ''JFIF'', BodyErr = None\<rparr>"

definition get_404 :: "string \<Rightarrow> lib_error + response" where
  "get_404 url = Inr \<lparr>StatusCode = 404, Body = ''Not Found'', BodyErr = None\<rparr>"

definition world0 :: world where
  "world0 = \<lparr>files = Map.empty, events = []\<rparr>"

text \<open>The records that are extracted from the pages A and B.\<close>

definition record_A :: Result where
  "record_A = \<lparr>Links = Some (fmupd ''My Site'' ''https://example.com'' fmempty),
               IconLinks = Some fmempty, Title = ''Jane | Linktree'',
               ProfileName = ''Jane Doe'', ProfileImg = []\<rparr>"

definition record_B :: Result where
  "record_B = \<lparr>Links = Some (fmupd ''My Site'' ''https://example.com'' fmempty),
               IconLinks = Some fmempty, Title = ''Jane | Linktree'',
               ProfileName = ''Jane Doe'', ProfileImg = ''https://cdn.example/img.jpg''\<rparr>"

text \<open>
  A record whose title is the single byte \<open>0xFF\<close>, which is not valid UTF-8 (a page
  in Latin-1 served without a charset gives such a title).
\<close>

definition record_bad :: Result where
  "record_bad = \<lparr>Links = Some fmempty, IconLinks = Some fmempty, Title = [CHR 0xFF],
                 ProfileName = ''x'', ProfileImg = []\<rparr>"

section \<open>Properties of the extraction\<close>

lemma each_onTitle: "each onTitle ts r = Some (if ts = [] then r else r\<lparr>Title := last ts\<rparr>)"
  by (induction ts arbitrary: r) (simp_all add: onTitle_def)

lemma each_onProfileTitle:
  "each onProfileTitle ts r = Some (if ts = [] then r else r\<lparr>ProfileName := last ts\<rparr>)"
  by (induction ts arbitrary: r) (simp_all add: onProfileTitle_def)

lemma each_onProfileImage:
  "each onProfileImage ss r =
     Some (if filter (\<lambda>s. s \<noteq> []) ss = [] then r
           else r\<lparr>ProfileImg := last (filter (\<lambda>s. s \<noteq> []) ss)\<rparr>)"
  by (induction ss arbitrary: r) (simp_all add: onProfileImage_def)

lemma each_onLinkButton:
  "Links r = Some m \<Longrightarrow>
   each onLinkButton es r = Some (r\<lparr>Links := Some (store_all (kept es) m)\<rparr>)"
  by (induction es arbitrary: r m)
     (simp_all add: onLinkButton_def map_assign_def kept_def store_all_def Let_def)

lemma each_onSocialIcon:
  "IconLinks r = Some m \<Longrightarrow>
   each onSocialIcon es r = Some (r\<lparr>IconLinks := Some (store_all (kept es) m)\<rparr>)"
  by (induction es arbitrary: r m)
     (simp_all add: onSocialIcon_def map_assign_def kept_def store_all_def Let_def)

lemma run_callbacks_init:
  "run_callbacks d Result_init =
     Some \<lparr>Links = Some (store_all (kept (link_buttons d)) fmempty),
           IconLinks = Some (store_all (kept (social_icons d)) fmempty),
           Title = last_text (titles d),
           ProfileName = last_text (profile_titles d),
           ProfileImg = last_text (filter (\<lambda>s. s \<noteq> []) (profile_images d))\<rparr>"
  by (simp add: run_callbacks_def each_onTitle each_onProfileTitle each_onProfileImage
      each_onLinkButton each_onSocialIcon Result_init_def Result_zero_def last_text_def)

lemma store_all_lookup:
  "fmlookup (store_all es m) k = (case map_of (rev es) k of Some v \<Rightarrow> Some v | None \<Rightarrow> fmlookup m k)"
  by (induction es arbitrary: m) (auto simp: store_all_def map_add_def split: option.splits)

lemma each_append:
  "each f (xs @ ys) r = Option.bind (each f xs r) (each f ys)"
  by (induction xs arbitrary: r) (simp_all split: option.splits)

text \<open>
  Claim C1. When the visit returns no error, the callbacks produce a record whose title
  and profile name are the texts of the last title element and of the last profile-title
  element (empty when there is none), and the validation at the end of
  \<open>crawlLinktreeProfile\<close> fails, with the error for missing required information,
  exactly when one of the two is empty. Otherwise the record is returned with no error:
  the links, the icon links and the image take no part in the test.
\<close>

theorem validation_fails_iff_mandatory_empty:
  assumes "visit_err (visit link) = None"
  shows "\<exists>r. run_callbacks (matched (visit link)) Result_init = Some r
           \<and> Title r = last_text (titles (matched (visit link)))
           \<and> ProfileName r = last_text (profile_titles (matched (visit link)))
           \<and> crawlLinktreeProfile visit link =
               Some (if Title r = [] \<or> ProfileName r = []
                     then (Result_zero, Some MissingRequired, on_request (visit link))
                     else (r, None, on_request (visit link)))"
  using assms by (simp add: run_callbacks_init crawlLinktreeProfile_def Let_def)

text \<open>
  A page with a title and a profile name and no link, icon or image passes; the same page
  without the profile-title element fails.
\<close>

theorem validation_fails_iff_mandatory_empty_witness:
  "visit_err (visit_ok (page_A\<lparr>link_buttons := []\<rparr>) ''https://linktr.ee/jane'') = None
   \<and> crawlLinktreeProfile (visit_ok (page_A\<lparr>link_buttons := []\<rparr>)) ''https://linktr.ee/jane'' =
       Some (\<lparr>Links = Some fmempty, IconLinks = Some fmempty, Title = ''Jane | Linktree'',
               ProfileName = ''Jane Doe'', ProfileImg = []\<rparr>, None, Some ''https://linktr.ee/jane'')
   \<and> crawlLinktreeProfile (visit_ok (page_A\<lparr>profile_titles := []\<rparr>)) ''https://linktr.ee/jane'' =
       Some (Result_zero, Some MissingRequired, Some ''https://linktr.ee/jane'')"
  using validation_fails_iff_mandatory_empty [of "visit_ok (page_A\<lparr>link_buttons := []\<rparr>)" "''https://linktr.ee/jane''"]
        validation_fails_iff_mandatory_empty [of "visit_ok (page_A\<lparr>profile_titles := []\<rparr>)" "''https://linktr.ee/jane''"]
  by (simp add: visit_ok_def page_A_def last_text_def run_callbacks_init kept_def store_all_def)

text \<open>
  Claim C4. A link button whose label or whose href is empty leaves the record as it is:
  the callback returns normally (it does not even touch the map, so it cannot panic), the
  number of entries of \<open>Links\<close> is unchanged, and the whole run of the callbacks is the
  same as on the page without that element.
\<close>

theorem empty_link_button_skipped:
  assumes "fst e = [] \<or> snd e = []"
  shows "onLinkButton result e = Some result
         \<and> (\<forall>result'. onLinkButton result e = Some result' \<longrightarrow>
                len_map (Links result') = len_map (Links result))
         \<and> run_callbacks (d\<lparr>link_buttons := xs @ e # ys\<rparr>) result =
             run_callbacks (d\<lparr>link_buttons := xs @ ys\<rparr>) result"
proof -
  have skip: "onLinkButton r e = Some r" for r
    using assms by (auto simp: onLinkButton_def Let_def)
  have "each onLinkButton (xs @ e # ys) r = each onLinkButton (xs @ ys) r" for r
    by (cases "each onLinkButton xs r") (simp_all add: each_append skip)
  then show ?thesis
    by (simp add: skip run_callbacks_def)
qed

text \<open>A button labelled \<open>Shop\<close> with no href, after a button that is kept.\<close>

theorem empty_link_button_skipped_witness:
  "(fst (''Shop'', []) = [] \<or> snd (''Shop'', []) = [])
   \<and> onLinkButton Result_init (''Shop'', []) = Some Result_init
   \<and> run_callbacks (page_A\<lparr>link_buttons := [(''My Site'', ''https://example.com''), (''Shop'', [])]\<rparr>) Result_init
       = run_callbacks page_A Result_init"
proof -
  have h: "fst (''Shop'', []) = [] \<or> snd (''Shop'', []) = []"
    by simp
  have p: "page_A\<lparr>link_buttons := [(''My Site'', ''https://example.com'')] @ []\<rparr> = page_A"
    by (simp add: page_A_def)
  from empty_link_button_skipped [OF h, where result = Result_init and d = page_A
      and xs = "[(''My Site'', ''https://example.com'')]" and ys = "[]"]
  have "onLinkButton Result_init (''Shop'', []) = Some Result_init"
    and "run_callbacks (page_A\<lparr>link_buttons := [(''My Site'', ''https://example.com'')] @ [(''Shop'', [])]\<rparr>) Result_init
           = run_callbacks (page_A\<lparr>link_buttons := [(''My Site'', ''https://example.com'')] @ []\<rparr>) Result_init"
    by blast+
  then show ?thesis
    unfolding p using h by simp
qed

lemma map_of_kept_None:
  "\<forall>e\<in>set zs. fst e = k \<longrightarrow> snd e = [] \<Longrightarrow> map_of (rev (kept zs)) k = None"
  by (induction zs) (auto simp: kept_def map_add_def split: option.splits)

text \<open>
  Claim C5. Two link buttons carry the same non-empty label and non-empty hrefs, and the
  later one is the last button that writes this label (whatever follows it with the same
  label has an empty href and is skipped). Then a successful crawl returns a record whose
  \<open>Links\<close> holds the later href under the label. The condition on what follows is needed:
  for an arbitrary pair of such buttons the later href need not be the final value, as the
  example after the theorem shows.
\<close>

theorem last_write_wins:
  assumes "link_buttons (matched (visit link)) = xs @ (label, href1) # ys @ (label, href2) # zs"
    and "label \<noteq> []" and "href1 \<noteq> []" and "href2 \<noteq> []"
    and "\<forall>e\<in>set zs. fst e = label \<longrightarrow> snd e = []"
    and "crawlLinktreeProfile visit link = Some (result, None, pr)"
  shows "map_index (Links result) label = Some href2"
proof -
  let ?d = "matched (visit link)"
  have r: "Links result = Some (store_all (kept (link_buttons ?d)) fmempty)"
    using assms(6)
    by (auto simp: crawlLinktreeProfile_def Let_def run_callbacks_init
        split: option.splits if_splits)
  have k: "kept (link_buttons ?d) = (kept xs @ (label, href1) # kept ys) @ (label, href2) # kept zs"
    using assms(1-4) by (simp add: kept_def)
  have "map_of (rev (kept (link_buttons ?d))) label = Some href2"
    unfolding k using map_of_kept_None [OF assms(5)] by (simp add: map_add_def)
  then show ?thesis
    by (simp add: r map_index_def store_all_lookup)
qed

text \<open>Three buttons labelled \<open>Shop\<close>; the last of them has no href.\<close>

theorem last_write_wins_witness:
  "map_index (Links (fst (the (crawlLinktreeProfile
      (visit_ok (page_A\<lparr>link_buttons := [(''Shop'', ''https://a.example''), (''Blog'', ''https://b.example''),
                                           (''Shop'', ''https://c.example''), (''Shop'', [])]\<rparr>))
      ''https://linktr.ee/jane'')))) ''Shop'' = Some ''https://c.example''"
proof -
  let ?v = "visit_ok (page_A\<lparr>link_buttons := [(''Shop'', ''https://a.example''), (''Blog'', ''https://b.example''),
                                           (''Shop'', ''https://c.example''), (''Shop'', [])]\<rparr>)"
  let ?l = "''https://linktr.ee/jane''"
  obtain r where c: "crawlLinktreeProfile ?v ?l = Some (r, None, Some ?l)"
    by (simp add: crawlLinktreeProfile_def Let_def run_callbacks_init visit_ok_def page_A_def last_text_def)
  have "map_index (Links r) ''Shop'' = Some ''https://c.example''"
    by (rule last_write_wins [of ?v ?l "[]" "''Shop''" "''https://a.example''"
          "[(''Blog'', ''https://b.example'')]" "''https://c.example''" "[(''Shop'', [])]" r "Some ?l"])
       (simp_all add: c visit_ok_def)
  then show ?thesis by (simp add: c)
qed

text \<open>
  Without the condition on what follows the later button, the statement fails. On a page
  with three buttons labelled \<open>Shop\<close>, each with an href, the first and the second are two
  buttons with the same non-empty label and non-empty hrefs, and the second is the later
  of the two; the crawl succeeds, and \<open>Links\<close> holds under \<open>Shop\<close> the href of the third
  button, not that of the second: every match assigns, so the last assignment stays.
\<close>

theorem last_write_wins_counterexample:
  "link_buttons (page_A\<lparr>link_buttons := [(''Shop'', ''https://a.example''), (''Shop'', ''https://b.example''),
                                          (''Shop'', ''https://c.example'')]\<rparr>)
     = [] @ (''Shop'', ''https://a.example'') # [] @ (''Shop'', ''https://b.example'') # [(''Shop'', ''https://c.example'')]
   \<and> (\<exists>result. crawlLinktreeProfile
          (visit_ok (page_A\<lparr>link_buttons := [(''Shop'', ''https://a.example''), (''Shop'', ''https://b.example''),
                                               (''Shop'', ''https://c.example'')]\<rparr>))
          ''https://linktr.ee/jane'' = Some (result, None, Some ''https://linktr.ee/jane'')
        \<and> map_index (Links result) ''Shop'' = Some ''https://c.example''
        \<and> map_index (Links result) ''Shop'' \<noteq> Some ''https://b.example'')"
  by (simp add: crawlLinktreeProfile_def Let_def run_callbacks_init visit_ok_def page_A_def
      last_text_def kept_def store_all_def map_index_def)

text \<open>
  Claim C10. Whenever \<open>crawlLinktreeProfile\<close> returns an error, the record beside it is the
  zero value: empty strings and maps without entries. The error is the wrapped error of
  the visit when the visit failed, and the error for missing required information
  otherwise.
\<close>

theorem error_returns_zero_value:
  assumes "crawlLinktreeProfile visit link = Some (result, Some err, pr)"
  shows "result = Result_zero
         \<and> Title result = [] \<and> ProfileName result = [] \<and> ProfileImg result = []
         \<and> len_map (Links result) = 0 \<and> len_map (IconLinks result) = 0
         \<and> (case visit_err (visit link) of
              Some e \<Rightarrow> err = VisitFailed link e
            | None \<Rightarrow> err = MissingRequired)"
  using assms
  by (auto simp: crawlLinktreeProfile_def Let_def run_callbacks_init Result_zero_def len_map_def
      split: option.splits if_splits)

text \<open>
  The visit hands every element of the example page to the callbacks and then fails: none
  of the extracted data is returned.
\<close>

theorem error_returns_zero_value_witness:
  "crawlLinktreeProfile (visit_broken page_A ''connection reset'') ''https://linktr.ee/jane''
     = Some (Result_zero, Some (VisitFailed ''https://linktr.ee/jane'' ''connection reset''),
             Some ''https://linktr.ee/jane'')
   \<and> len_map (Links Result_zero) = 0"
proof -
  have c: "crawlLinktreeProfile (visit_broken page_A ''connection reset'') ''https://linktr.ee/jane''
     = Some (Result_zero, Some (VisitFailed ''https://linktr.ee/jane'' ''connection reset''),
             Some ''https://linktr.ee/jane'')"
    by (simp add: crawlLinktreeProfile_def Let_def run_callbacks_init visit_broken_def)
  from error_returns_zero_value [OF c] show ?thesis using c by simp
qed

section \<open>Paths, files and the main function\<close>

lemma split_sep_nonempty: "split_sep s \<noteq> []"
  by (induction s) (auto split: list.splits)

lemma split_sep_plain: "CHR ''/'' \<notin> set t \<Longrightarrow> split_sep t = [t]"
  by (induction t) auto

lemma split_sep_append:
  "CHR ''/'' \<notin> set t \<Longrightarrow> split_sep (s @ t) = butlast (split_sep s) @ [last (split_sep s) @ t]"
proof (induction s)
  case Nil
  then show ?case by (simp add: split_sep_plain)
next
  case (Cons c cs)
  then show ?case
    using split_sep_nonempty [of cs]
    by (cases "split_sep cs") (auto split: list.splits)
qed

lemma clean_step_real:
  "e \<noteq> [] \<Longrightarrow> e \<noteq> ''.'' \<Longrightarrow> e \<noteq> ''..'' \<Longrightarrow> clean_step rooted out e = out @ [e]"
  by (simp add: clean_step_def)

lemma join_sep_snoc:
  "e \<noteq> [] \<Longrightarrow> join_sep (xs @ [e]) \<noteq> [] \<and> last (join_sep (xs @ [e])) = last e"
proof (induction xs)
  case Nil
  then show ?case by simp
next
  case (Cons x xs)
  then show ?case by (cases xs) auto
qed

lemma Clean_last:
  assumes "CHR ''/'' \<notin> set t" and "t \<noteq> []" and "2 < length t"
  shows "last (filepath_Clean (s @ t)) = last t"
proof -
  let ?X = "split_sep s"
  let ?e = "last ?X @ t"
  let ?r = "hd (s @ t) = CHR ''/''"
  have e: "?e \<noteq> []" "?e \<noteq> ''.''" "?e \<noteq> ''..''"
    using assms by (auto simp: append_eq_Cons_conv)
  have "foldl (clean_step ?r) [] (split_sep (s @ t)) = foldl (clean_step ?r) [] (butlast ?X) @ [?e]"
    by (simp add: split_sep_append [OF assms(1)] clean_step_real [OF e])
  moreover have "(s @ t) \<noteq> []"
    using assms by simp
  ultimately show ?thesis
    using join_sep_snoc [OF e(1), of "foldl (clean_step ?r) [] (butlast ?X)"] assms(2)
    by (auto simp: filepath_Clean_def Let_def)
qed

lemma json_path_last:
  "last (filepath_Join [''.'', name @ ''.json'']) = CHR ''n''"
proof -
  have "filepath_Join [''.'', name @ ''.json''] = filepath_Clean ((''./'' @ name) @ ''.json'')"
    by (simp add: filepath_Join_def)
  then show ?thesis
    using Clean_last [of "''.json''" "''./'' @ name"] by simp
qed

lemma json_path_not_jpg:
  "filepath_Join [''.'', name @ ''.json''] \<noteq> ident @ ''.jpg''"
proof
  assume "filepath_Join [''.'', name @ ''.json''] = ident @ ''.jpg''"
  then have "last (filepath_Join [''.'', name @ ''.json'']) = last (ident @ ''.jpg'')"
    by simp
  then show False
    by (simp add: json_path_last)
qed

lemma json_path_plain:
  assumes "CHR ''/'' \<notin> set name"
  shows "filepath_Join [''.'', name @ ''.json''] = name @ ''.json''"
proof -
  have s: "split_sep (''./'' @ name @ ''.json'') = [''.'', name @ ''.json'']"
    using assms by (simp add: split_sep_plain)
  have e: "name @ ''.json'' \<noteq> []" "name @ ''.json'' \<noteq> ''.''" "name @ ''.json'' \<noteq> ''..''"
    by (auto simp: append_eq_Cons_conv)
  have "foldl (clean_step False) [] [''.'', name @ ''.json''] = [name @ ''.json'']"
    using clean_step_real [OF e, of False "[]"] by (simp add: clean_step_def)
  then show ?thesis
    using s by (simp add: filepath_Join_def filepath_Clean_def Let_def)
qed

lemma crawl_error_iff:
  "crawlLinktreeProfile visit link =
     (let out = visit link; d = matched out in
      case visit_err out of
        Some e \<Rightarrow> Some (Result_zero, Some (VisitFailed link e), on_request out)
      | None \<Rightarrow>
          if last_text (titles d) = [] \<or> last_text (profile_titles d) = []
          then Some (Result_zero, Some MissingRequired, on_request out)
          else Some (the (run_callbacks d Result_init), None, on_request out))"
  by (simp add: crawlLinktreeProfile_def Let_def run_callbacks_init split: option.splits)

text \<open>
  The crawl and the whole program always return: no callback panics on the maps that
  \<open>crawlLinktreeProfile\<close> allocates.
\<close>

lemma crawl_returns: "\<exists>x. crawlLinktreeProfile visit link = Some x"
  by (simp add: crawl_error_iff Let_def split: option.splits)

lemma main_returns: "\<exists>w'. main env w = Some w'"
proof (cases "length (os_Args env) < 2")
  case True
  then show ?thesis by (simp add: main_def)
next
  case False
  obtain result crawl_err visiting
    where c: "crawlLinktreeProfile (collector_Visit env) (''https://linktr.ee/'' @ os_Args env ! 1)
                = Some (result, crawl_err, visiting)"
    using crawl_returns [of "collector_Visit env" "''https://linktr.ee/'' @ os_Args env ! 1"]
    by (metis prod_cases3)
  show ?thesis
    using False c
    by (auto simp: main_def Let_def split: option.splits prod.splits)
qed

text \<open>
  Claim C8. When the visit fails, or the title or the profile name is empty after the
  callbacks, \<open>main\<close> returns after printing the error: the files are what they were, and
  the only events of the run are the line of the \<^verbatim>\<open>OnRequest\<close> callback (if it ran) and
  the error line. No file is written or created and no image is requested.
\<close>

theorem no_file_written_on_crawl_failure:
  assumes "2 \<le> length (os_Args env)"
    and "out = collector_Visit env (''https://linktr.ee/'' @ os_Args env ! 1)"
    and "visit_err out \<noteq> None \<or> last_text (titles (matched out)) = []
           \<or> last_text (profile_titles (matched out)) = []"
  shows "\<exists>w' err. main env w = Some w' \<and> files w' = files w
           \<and> events w' = events w
                @ (case on_request out of None \<Rightarrow> [] | Some u \<Rightarrow> [Stdout (Visiting u)])
                @ [Stderr (ErrorDuringCrawling err)]"
  using assms
  by (auto simp: main_def crawl_error_iff Let_def emit_def split: option.splits)

text \<open>The page of scenario C has no profile-title element.\<close>

theorem no_file_written_on_crawl_failure_witness:
  "main (env_of ''jane'' page_C get_ok) world0 =
     Some \<lparr>files = Map.empty,
           events = [Stdout (Visiting ''https://linktr.ee/jane''),
                     Stderr (ErrorDuringCrawling MissingRequired)]\<rparr>"
proof -
  let ?env = "env_of ''jane'' page_C get_ok"
  have a: "2 \<le> length (os_Args ?env)"
    by (simp add: env_of_def)
  have c: "visit_err (collector_Visit ?env (''https://linktr.ee/'' @ os_Args ?env ! 1)) \<noteq> None
      \<or> last_text (titles (matched (collector_Visit ?env (''https://linktr.ee/'' @ os_Args ?env ! 1)))) = []
      \<or> last_text (profile_titles (matched (collector_Visit ?env (''https://linktr.ee/'' @ os_Args ?env ! 1)))) = []"
    by (simp add: env_of_def visit_ok_def page_C_def last_text_def)
  from no_file_written_on_crawl_failure [OF a refl c, of world0]
  obtain w' err where m: "main ?env world0 = Some w'" 
    and f: "files w' = files world0" by blast
  have "main ?env world0 = Some \<lparr>files = Map.empty,
           events = [Stdout (Visiting ''https://linktr.ee/jane''),
                     Stderr (ErrorDuringCrawling MissingRequired)]\<rparr>"
    by (simp add: main_def crawl_error_iff Let_def emit_def env_of_def visit_ok_def page_C_def
        page_A_def last_text_def world0_def)
  then show ?thesis using m f by simp
qed

lemma saveResultToFile_result:
  "saveResultToFile env result fileName w = (r, w') \<Longrightarrow> r = None \<Longrightarrow>
   w' = w\<lparr>files := (files w)(filepath_Join [''.'', fileName] \<mapsto> render [] ''  '' 0 (Result_value result)),
          events := events w @ [WriteFile (filepath_Join [''.'', fileName]),
                                Stdout (DataSaved (filepath_Join [''.'', fileName]))]\<rparr>"
  by (auto simp: saveResultToFile_def json_MarshalIndent_def os_WriteFile_def Let_def emit_def
      store_def split: option.splits fault.splits)

lemma saveResultToFile_ok:
  "file_fault env (filepath_Join [''.'', fileName]) = None \<Longrightarrow>
   saveResultToFile env result fileName w =
     (None, w\<lparr>files := (files w)(filepath_Join [''.'', fileName] \<mapsto> render [] ''  '' 0 (Result_value result)),
          events := events w @ [WriteFile (filepath_Join [''.'', fileName]),
                                Stdout (DataSaved (filepath_Join [''.'', fileName]))]\<rparr>)"
  by (simp add: saveResultToFile_def json_MarshalIndent_def os_WriteFile_def Let_def emit_def
      store_def)

lemma downloadProfileImage_files:
  "downloadProfileImage env url name w = (r, w') \<Longrightarrow> p \<noteq> name \<Longrightarrow> files w' p = files w p"
  by (auto simp: downloadProfileImage_def os_Create_def io_Copy_def Let_def emit_def store_def
      split: sum.splits if_splits option.splits fault.splits prod.splits)

lemma downloadProfileImage_ok:
  "http_Get env url = Inr resp \<Longrightarrow> StatusCode resp = 200 \<Longrightarrow> BodyErr resp = None \<Longrightarrow>
   file_fault env name = None \<Longrightarrow>
   downloadProfileImage env url name w =
     (None, w\<lparr>files := (files w)(name \<mapsto> Body resp),
              events := events w @ [HttpGet url, Create name, Stdout (ImageSaved name)]\<rparr>)"
  by (simp add: downloadProfileImage_def os_Create_def io_Copy_def Let_def emit_def store_def)

text \<open>
  Claim C3. On a run in which every step succeeds, the JSON text is written to the path
  \<^verbatim>\<open>filepath.Join(".", result.ProfileName + ".json")\<close>, which is the profile name
  followed by \<open>.json\<close> when the name has no separator, and the image (when the record has
  an image URL) to the program argument followed by \<open>.jpg\<close>. These are the only files the
  run touches.
\<close>

theorem output_file_names:
  assumes "2 \<le> length (os_Args env)"
    and "crawlLinktreeProfile (collector_Visit env) (''https://linktr.ee/'' @ os_Args env ! 1)
           = Some (result, None, visiting)"
    and "jsonPath = filepath_Join [''.'', ProfileName result @ ''.json'']"
    and "imgPath = os_Args env ! 1 @ ''.jpg''"
    and "file_fault env jsonPath = None"
    and "ProfileImg result \<noteq> [] \<longrightarrow>
           file_fault env imgPath = None \<and> http_Get env (ProfileImg result) = Inr resp
           \<and> StatusCode resp = 200 \<and> BodyErr resp = None"
  shows "\<exists>w'. main env w = Some w'
           \<and> files w' =
               (if ProfileImg result = []
                then (files w)(jsonPath \<mapsto> render [] ''  '' 0 (Result_value result))
                else (files w)(jsonPath \<mapsto> render [] ''  '' 0 (Result_value result),
                               imgPath \<mapsto> Body resp))
           \<and> events w' = events w
               @ (case visiting of None \<Rightarrow> [] | Some u \<Rightarrow> [Stdout (Visiting u)])
               @ [WriteFile jsonPath, Stdout (DataSaved jsonPath)]
               @ (if ProfileImg result = [] then []
                  else [HttpGet (ProfileImg result), Create imgPath, Stdout (ImageSaved imgPath)])
           \<and> (CHR ''/'' \<notin> set (ProfileName result) \<longrightarrow> jsonPath = ProfileName result @ ''.json'')"
proof (cases "ProfileImg result = []")
  case True
  then show ?thesis
    using assms(1-5)
    by (auto simp: main_def Let_def saveResultToFile_ok emit_def json_path_plain
        split: option.splits)
next
  case False
  then have d: "file_fault env imgPath = None" "http_Get env (ProfileImg result) = Inr resp"
      "StatusCode resp = 200" "BodyErr resp = None"
    using assms(6) by simp_all
  show ?thesis
    using assms(1-5) False d
    by (auto simp: main_def Let_def saveResultToFile_ok downloadProfileImage_ok emit_def
        json_path_plain split: option.splits)
qed

text \<open>
  Claim C7. After a successful crawl and a successful save of the JSON file: when the
  image URL of the record is empty, the run ends there, with no request for an image;
  when it is not empty and the download fails, \<open>main\<close> still returns normally, the only
  addition to what the download did being the error line, the JSON file holds the text
  that was written to it, and no file other than the image file has changed.
\<close>

theorem download_failure_not_fatal:
  assumes "2 \<le> length (os_Args env)"
    and "crawlLinktreeProfile (collector_Visit env) (''https://linktr.ee/'' @ os_Args env ! 1)
           = Some (result, None, visiting)"
    and "w1 = (case visiting of None \<Rightarrow> w | Some u \<Rightarrow> emit (Stdout (Visiting u)) w)"
    and "saveResultToFile env result (ProfileName result @ ''.json'') w1 = (None, w2)"
    and "jsonPath = filepath_Join [''.'', ProfileName result @ ''.json'']"
    and "imgPath = os_Args env ! 1 @ ''.jpg''"
  shows "events w2 = events w1 @ [WriteFile jsonPath, Stdout (DataSaved jsonPath)]
         \<and> files w2 jsonPath = Some (render [] ''  '' 0 (Result_value result))
         \<and> (ProfileImg result = [] \<longrightarrow> main env w = Some w2)
         \<and> (ProfileImg result \<noteq> [] \<longrightarrow>
              (\<forall>err w3. downloadProfileImage env (ProfileImg result) imgPath w2 = (Some err, w3) \<longrightarrow>
                 main env w = Some (emit (Stderr (FailedToDownloadImage err)) w3)
                 \<and> files (emit (Stderr (FailedToDownloadImage err)) w3) jsonPath
                      = Some (render [] ''  '' 0 (Result_value result))
                 \<and> (\<forall>p. p \<noteq> imgPath \<longrightarrow> files w3 p = files w2 p)))"
proof -
  note s = saveResultToFile_result [OF assms(4) refl]
  have e: "events w2 = events w1 @ [WriteFile jsonPath, Stdout (DataSaved jsonPath)]"
    and f: "files w2 jsonPath = Some (render [] ''  '' 0 (Result_value result))"
    by (simp_all add: s assms(5))
  have n: "jsonPath \<noteq> imgPath"
    unfolding assms(5,6) by (rule json_path_not_jpg)
  have m0: "ProfileImg result = [] \<Longrightarrow> main env w = Some w2"
    using assms(1-4) by (simp add: main_def Let_def)
  have m1: "main env w = Some (emit (Stderr (FailedToDownloadImage err)) w3)"
    if "ProfileImg result \<noteq> []"
      and "downloadProfileImage env (ProfileImg result) imgPath w2 = (Some err, w3)" for err w3
    using assms(1-4,6) that by (simp add: main_def Let_def)
  have k: "files (emit (Stderr (FailedToDownloadImage err)) w3) jsonPath
             = Some (render [] ''  '' 0 (Result_value result))"
    if "downloadProfileImage env (ProfileImg result) imgPath w2 = (Some err, w3)" for err w3
    using downloadProfileImage_files [OF that n] f by (simp add: emit_def)
  show ?thesis
    using e f m0 m1 k downloadProfileImage_files by blast
qed

lemma crawl_page_B:
  "crawlLinktreeProfile (visit_ok page_B) link = Some (record_B, None, Some link)"
  by (simp add: crawl_error_iff visit_ok_def page_B_def page_A_def last_text_def
      run_callbacks_init kept_def store_all_def record_B_def)

lemma json_path_B: "filepath_Join [''.'', ''Jane Doe'' @ ''.json''] = ''Jane Doe.json''"
  using json_path_plain [of "''Jane Doe''"] by simp

text \<open>
  The argument is \<open>janed\<close>, the profile name on the page is \<open>Jane Doe\<close>: the files are
  \<open>Jane Doe.json\<close> and \<open>janed.jpg\<close>.
\<close>

theorem output_file_names_witness:
  "\<exists>w'. main (env_of ''janed'' page_B get_ok) world0 = Some w'
     \<and> files w' = [''Jane Doe.json'' \<mapsto> render [] ''  '' 0 (Result_value record_B),
                   ''janed.jpg'' \<mapsto> ''JFIF'']
     \<and> events w' = [Stdout (Visiting ''https://linktr.ee/janed''),
                    WriteFile ''Jane Doe.json'', Stdout (DataSaved ''Jane Doe.json''),
                    HttpGet ''https://cdn.example/img.jpg'', Create ''janed.jpg'',
                    Stdout (ImageSaved ''janed.jpg'')]"
proof -
  let ?env = "env_of ''janed'' page_B get_ok"
  let ?resp = "\<lparr>StatusCode = 200, Body = ''JFIF'', BodyErr = None\<rparr>"
  have a: "2 \<le> length (os_Args ?env)"
    by (simp add: env_of_def)
  have c: "crawlLinktreeProfile (collector_Visit ?env) (''https://linktr.ee/'' @ os_Args ?env ! 1)
             = Some (record_B, None, Some ''https://linktr.ee/janed'')"
    by (simp add: env_of_def crawl_page_B)
  have f: "file_fault ?env (filepath_Join [''.'', ProfileName record_B @ ''.json'']) = None"
    by (simp add: env_of_def)
  have d: "ProfileImg record_B \<noteq> [] \<longrightarrow>
             file_fault ?env (os_Args ?env ! 1 @ ''.jpg'') = None
             \<and> http_Get ?env (ProfileImg record_B) = Inr ?resp
             \<and> StatusCode ?resp = 200 \<and> BodyErr ?resp = None"
    by (simp add: env_of_def get_ok_def)
  have p: "filepath_Join [''.'', ProfileName record_B @ ''.json''] = ''Jane Doe.json''"
    using json_path_B by (simp add: record_B_def)
  have i: "ProfileImg record_B = ''https://cdn.example/img.jpg''" "os_Args ?env ! 1 = ''janed''"
    by (simp_all add: record_B_def env_of_def)
  from output_file_names [OF a c refl refl f d, of world0]
  have "\<exists>w'. main ?env world0 = Some w'
     \<and> files w' = [''Jane Doe.json'' \<mapsto> render [] ''  '' 0 (Result_value record_B),
                   ''janed.jpg'' \<mapsto> ''JFIF'']
     \<and> events w' = [Stdout (Visiting ''https://linktr.ee/janed''),
                    WriteFile ''Jane Doe.json'', Stdout (DataSaved ''Jane Doe.json''),
                    HttpGet ''https://cdn.example/img.jpg'', Create ''janed.jpg'',
                    Stdout (ImageSaved ''janed.jpg'')]
     \<and> (CHR ''/'' \<notin> set (ProfileName record_B) \<longrightarrow> ''Jane Doe.json'' = ProfileName record_B @ ''.json'')"
    unfolding p i by (simp add: world0_def)
  then show ?thesis
    by blast
qed

text \<open>Scenario B: the image request is answered with status 404.\<close>

theorem download_failure_not_fatal_witness:
  "main (env_of ''janed'' page_B get_404) world0 =
     Some \<lparr>files = [''Jane Doe.json'' \<mapsto> render [] ''  '' 0 (Result_value record_B)],
           events = [Stdout (Visiting ''https://linktr.ee/janed''),
                     WriteFile ''Jane Doe.json'', Stdout (DataSaved ''Jane Doe.json''),
                     HttpGet ''https://cdn.example/img.jpg'',
                     Stderr (FailedToDownloadImage (BadStatus 404))]\<rparr>"
proof -
  let ?env = "env_of ''janed'' page_B get_404"
  let ?w1 = "emit (Stdout (Visiting ''https://linktr.ee/janed'')) world0"
  let ?w2 = "?w1\<lparr>files := (files ?w1)(''Jane Doe.json'' \<mapsto> render [] ''  '' 0 (Result_value record_B)),
          events := events ?w1 @ [WriteFile ''Jane Doe.json'', Stdout (DataSaved ''Jane Doe.json'')]\<rparr>"
  let ?w3 = "emit (HttpGet ''https://cdn.example/img.jpg'') ?w2"
  have a: "2 \<le> length (os_Args ?env)"
    by (simp add: env_of_def)
  have c: "crawlLinktreeProfile (collector_Visit ?env) (''https://linktr.ee/'' @ os_Args ?env ! 1)
             = Some (record_B, None, Some ''https://linktr.ee/janed'')"
    by (simp add: env_of_def crawl_page_B)
  have p: "filepath_Join [''.'', ProfileName record_B @ ''.json''] = ''Jane Doe.json''"
    using json_path_B by (simp add: record_B_def)
  have w1: "?w1 = (case Some ''https://linktr.ee/janed'' of None \<Rightarrow> world0
                   | Some u \<Rightarrow> emit (Stdout (Visiting u)) world0)"
    by simp
  have s: "saveResultToFile ?env record_B (ProfileName record_B @ ''.json'') ?w1 = (None, ?w2)"
    using saveResultToFile_ok [of ?env "ProfileName record_B @ ''.json''" record_B ?w1]
    unfolding p by (simp add: env_of_def)
  have i: "ProfileImg record_B = ''https://cdn.example/img.jpg''" "os_Args ?env ! 1 = ''janed''"
    by (simp_all add: record_B_def env_of_def)
  have d: "downloadProfileImage ?env (ProfileImg record_B) (os_Args ?env ! 1 @ ''.jpg'') ?w2
             = (Some (BadStatus 404), ?w3)"
    unfolding i by (simp add: downloadProfileImage_def env_of_def get_404_def Let_def)
  from download_failure_not_fatal [OF a c w1 s refl refl] d
  have "main ?env world0 = Some (emit (Stderr (FailedToDownloadImage (BadStatus 404))) ?w3)"
    unfolding i by simp
  then show ?thesis
    by (simp add: emit_def world0_def)
qed

section \<open>The JSON text\<close>

lemma appendString_loop_plain:
  "\<forall>c\<in>set s. htmlSafeSet c \<Longrightarrow> appendString_loop s = s"
  by (induction s) (auto simp: htmlSafeSet_def)

lemma appendString_plain:
  "\<forall>c\<in>set s. htmlSafeSet c \<Longrightarrow> appendString s = CHR 0x22 # s @ [CHR 0x22]"
  by (simp add: appendString_def appendString_loop_plain)

lemma render_members_concat:
  "render_members p i d ((k, v) # ms) =
     appendString k @ '': '' @ render p i d v
       @ concat (map (\<lambda>(k, v). '','' @ newline_indent p i d @ appendString k @ '': '' @ render p i d v) ms)"
  by (induction ms arbitrary: k v) auto

lemma sorted_list_of_fmap_empty: "sorted_list_of_fmap fmempty = []"
  by (simp add: sorted_list_of_fmap_def sorted_list_of_fset.rep_eq)

lemma render_string_members:
  "render p i d (JObject (map (\<lambda>(k, v). (k, JString v)) ((k, x) # kvs))) =
     ''{'' @ newline_indent p i (Suc d) @ appendString k @ '': '' @ appendString x
       @ concat (map (\<lambda>(k, x). '','' @ newline_indent p i (Suc d) @ appendString k @ '': '' @ appendString x) kvs)
       @ newline_indent p i d @ ''}''"
proof -
  have "concat (map (\<lambda>(k, v). '','' @ newline_indent p i (Suc d) @ appendString k @ '': '' @ render p i (Suc d) v)
                 (map (\<lambda>(k, v). (k, JString v)) kvs))
        = concat (map (\<lambda>(k, x). '','' @ newline_indent p i (Suc d) @ appendString k @ '': '' @ appendString x) kvs)"
    by (induction kvs) auto
  then show ?thesis
    by (simp add: render_members_concat)
qed

lemma sorted_list_of_fmap_single: "sorted_list_of_fmap (fmupd k v fmempty) = [(k, v)]"
proof -
  have "sorted_list_of_fset {|k|} = [k]"
    by (simp add: sorted_list_of_fset.rep_eq)
  then show ?thesis
    by (simp add: sorted_list_of_fmap_def)
qed

lemma key_names:
  "appendString ''links'' = CHR 0x22 # ''links'' @ [CHR 0x22]"
  "appendString ''icon_links'' = CHR 0x22 # ''icon_links'' @ [CHR 0x22]"
  "appendString ''title'' = CHR 0x22 # ''title'' @ [CHR 0x22]"
  "appendString ''profile_name'' = CHR 0x22 # ''profile_name'' @ [CHR 0x22]"
  "appendString ''profile_img'' = CHR 0x22 # ''profile_img'' @ [CHR 0x22]"
  by (simp_all add: appendString_plain htmlSafeSet_def)

lemma newline_indent_simps:
  "newline_indent [] ''  '' 0 = [CHR 0x0A]"
  "newline_indent [] ''  '' (Suc 0) = CHR 0x0A # ''  ''"
  "newline_indent [] ''  '' (Suc (Suc 0)) = CHR 0x0A # ''    ''"
  by (simp_all add: newline_indent_def)

lemma MarshalIndent_text:
  "json_MarshalIndent v [] ''  '' = Inr (
        ''{'' @ [CHR 0x0A] @
        ''  '' @ [CHR 0x22] @ ''links'' @ [CHR 0x22] @ '': '' @ render [] ''  '' 1 (map_value (Links v)) @ '','' @ [CHR 0x0A] @
        ''  '' @ [CHR 0x22] @ ''icon_links'' @ [CHR 0x22] @ '': '' @ render [] ''  '' 1 (map_value (IconLinks v)) @ '','' @ [CHR 0x0A] @
        ''  '' @ [CHR 0x22] @ ''title'' @ [CHR 0x22] @ '': '' @ appendString (Title v) @ '','' @ [CHR 0x0A] @
        ''  '' @ [CHR 0x22] @ ''profile_name'' @ [CHR 0x22] @ '': '' @ appendString (ProfileName v) @ '','' @ [CHR 0x0A] @
        ''  '' @ [CHR 0x22] @ ''profile_img'' @ [CHR 0x22] @ '': '' @ appendString (ProfileImg v) @ [CHR 0x0A] @
        ''}'')"
  by (simp add: json_MarshalIndent_def Result_value_def key_names newline_indent_simps)

lemma render_map_text:
  "render [] ''  '' 1 (map_value m) =
        (case m of
           None \<Rightarrow> ''null''
         | Some f \<Rightarrow>
             (case sorted_list_of_fmap f of
                [] \<Rightarrow> ''{}''
              | (k, x) # kvs \<Rightarrow>
                  ''{'' @ [CHR 0x0A] @
                  ''    '' @ appendString k @ '': '' @ appendString x @
                  concat (map (\<lambda>(k, x). '','' @ [CHR 0x0A] @ ''    '' @ appendString k @ '': '' @ appendString x) kvs) @
                  [CHR 0x0A] @ ''  }''))"
proof (cases m)
  case None
  then show ?thesis by (simp add: map_value_def)
next
  case (Some f)
  show ?thesis
  proof (cases "sorted_list_of_fmap f")
    case Nil
    then show ?thesis by (simp add: Some map_value_def)
  next
    case (Cons a kvs)
    obtain k x where a: "a = (k, x)" by (cases a)
    have "render [] ''  '' 1 (map_value m)
            = render [] ''  '' (Suc 0) (JObject (map (\<lambda>(k, v). (k, JString v)) ((k, x) # kvs)))"
      by (simp add: Some Cons a map_value_def)
    then show ?thesis
      unfolding render_string_members by (simp add: Some Cons a newline_indent_simps)
  qed
qed

text \<open>
  Claim C2, as amended. For every record the encoder writes an object whose keys are, in
  this order, \<open>links\<close>, \<open>icon_links\<close>, \<open>title\<close>, \<open>profile_name\<close>, \<open>profile_img\<close> (the
  names of the \<^verbatim>\<open>json\<close> tags). Each member stands on a line of its own, after two
  spaces; the entries of a map stand on lines of their own, after four spaces, in the
  order of their keys, and the brace that closes a map stands after two spaces. An empty
  map is written \<open>{}\<close> and a nil map \<open>null\<close>.
\<close>

theorem json_keys_and_layout:
  "object_keys (Result_value v) = [''links'', ''icon_links'', ''title'', ''profile_name'', ''profile_img'']
   \<and> json_MarshalIndent v [] ''  '' = Inr (
        ''{'' @ [CHR 0x0A] @
        ''  '' @ [CHR 0x22] @ ''links'' @ [CHR 0x22] @ '': '' @ render [] ''  '' 1 (map_value (Links v)) @ '','' @ [CHR 0x0A] @
        ''  '' @ [CHR 0x22] @ ''icon_links'' @ [CHR 0x22] @ '': '' @ render [] ''  '' 1 (map_value (IconLinks v)) @ '','' @ [CHR 0x0A] @
        ''  '' @ [CHR 0x22] @ ''title'' @ [CHR 0x22] @ '': '' @ appendString (Title v) @ '','' @ [CHR 0x0A] @
        ''  '' @ [CHR 0x22] @ ''profile_name'' @ [CHR 0x22] @ '': '' @ appendString (ProfileName v) @ '','' @ [CHR 0x0A] @
        ''  '' @ [CHR 0x22] @ ''profile_img'' @ [CHR 0x22] @ '': '' @ appendString (ProfileImg v) @ [CHR 0x0A] @
        ''}'')
   \<and> render [] ''  '' 1 (map_value m) =
        (case m of
           None \<Rightarrow> ''null''
         | Some f \<Rightarrow>
             (case sorted_list_of_fmap f of
                [] \<Rightarrow> ''{}''
              | (k, x) # kvs \<Rightarrow>
                  ''{'' @ [CHR 0x0A] @
                  ''    '' @ appendString k @ '': '' @ appendString x @
                  concat (map (\<lambda>(k, x). '','' @ [CHR 0x0A] @ ''    '' @ appendString k @ '': '' @ appendString x) kvs) @
                  [CHR 0x0A] @ ''  }''))"
proof -
  have "object_keys (Result_value v) = [''links'', ''icon_links'', ''title'', ''profile_name'', ''profile_img'']"
    by (simp add: object_keys_def Result_value_def)
  then show ?thesis
    using MarshalIndent_text [of v] render_map_text [of m] by blast
qed

text \<open>The text written for the record of scenario A.\<close>

theorem json_keys_and_layout_witness: \<open>
  json_MarshalIndent record_A [] ''  '' = Inr
''{
  "links": {
    "My Site": "https://example.com"
  },
  "icon_links": {},
  "title": "Jane | Linktree",
  "profile_name": "Jane Doe",
  "profile_img": ""
}''\<close>
  using json_keys_and_layout [of record_A "Links record_A"]
  by (simp add: record_A_def sorted_list_of_fmap_single sorted_list_of_fmap_empty map_value_def
      appendString_plain htmlSafeSet_def newline_indent_simps)

text \<open>
  Claim C2 as it is stated names the keys \<open>iconLinks\<close>, \<open>profileName\<close> and
  \<open>profileImageURL\<close>: these are not the keys of the object written for the record of
  scenario A.
\<close>

theorem claimed_key_names_counterexample:
  "object_keys (Result_value record_A)
     \<noteq> [''links'', ''iconLinks'', ''title'', ''profileName'', ''profileImageURL'']"
  by (simp add: object_keys_def Result_value_def)

section \<open>The maps are never nil\<close>

lemma callbacks_keep_initialized:
  assumes "initialized r"
  shows "\<exists>r'. onTitle r t = Some r' \<and> initialized r'"
    and "\<exists>r'. onLinkButton r e = Some r' \<and> initialized r'"
    and "\<exists>r'. onSocialIcon r e = Some r' \<and> initialized r'"
    and "\<exists>r'. onProfileTitle r t = Some r' \<and> initialized r'"
    and "\<exists>r'. onProfileImage r t = Some r' \<and> initialized r'"
  using assms
  by (auto simp: initialized_def onTitle_def onLinkButton_def onSocialIcon_def
      onProfileTitle_def onProfileImage_def map_assign_def Let_def)

lemma each_keeps_initialized:
  assumes "\<And>r e. initialized r \<Longrightarrow> \<exists>r'. f r e = Some r' \<and> initialized r'"
  shows "initialized r \<Longrightarrow> \<exists>r'. each f es r = Some r' \<and> initialized r'"
proof (induction es arbitrary: r)
  case Nil
  then show ?case by simp
next
  case (Cons e es)
  from assms [OF Cons.prems] obtain r1 where "f r e = Some r1" "initialized r1"
    by blast
  then show ?case
    using Cons.IH [of r1] by simp
qed

lemma run_callbacks_keeps_initialized:
  assumes "initialized r"
  shows "\<exists>r'. run_callbacks d r = Some r' \<and> initialized r'"
proof -
  obtain r1 where 1: "each onTitle (titles d) r = Some r1" "initialized r1"
    using each_keeps_initialized [of onTitle r] callbacks_keep_initialized(1) assms by blast
  obtain r2 where 2: "each onLinkButton (link_buttons d) r1 = Some r2" "initialized r2"
    using each_keeps_initialized [of onLinkButton r1] callbacks_keep_initialized(2) 1 by blast
  obtain r3 where 3: "each onSocialIcon (social_icons d) r2 = Some r3" "initialized r3"
    using each_keeps_initialized [of onSocialIcon r2] callbacks_keep_initialized(3) 2 by blast
  obtain r4 where 4: "each onProfileTitle (profile_titles d) r3 = Some r4" "initialized r4"
    using each_keeps_initialized [of onProfileTitle r3] callbacks_keep_initialized(4) 3 by blast
  obtain r5 where 5: "each onProfileImage (profile_images d) r4 = Some r5" "initialized r5"
    using each_keeps_initialized [of onProfileImage r4] callbacks_keep_initialized(5) 4 by blast
  show ?thesis
    using 1 2 3 4 5 by (simp add: run_callbacks_def)
qed

text \<open>
  Claim C9. The record the callbacks start from has two empty maps, neither of them nil.
  Every callback, and the run of all callbacks, returns normally on a record whose maps
  are not nil, and returns such a record. So the run from the initial record ends with
  both maps allocated; on a page with no link button and no social icon both are still
  empty, and the text written for the record has \<open>{}\<close> for both, not \<open>null\<close>.
\<close>

theorem maps_always_initialized:
  "Links Result_init = Some fmempty \<and> IconLinks Result_init = Some fmempty
   \<and> (initialized r \<longrightarrow>
        (\<exists>r'. onTitle r t = Some r' \<and> initialized r')
        \<and> (\<exists>r'. onLinkButton r e = Some r' \<and> initialized r')
        \<and> (\<exists>r'. onSocialIcon r e = Some r' \<and> initialized r')
        \<and> (\<exists>r'. onProfileTitle r t = Some r' \<and> initialized r')
        \<and> (\<exists>r'. onProfileImage r t = Some r' \<and> initialized r')
        \<and> (\<exists>r'. run_callbacks d r = Some r' \<and> initialized r'))
   \<and> (\<exists>r'. run_callbacks d Result_init = Some r' \<and> initialized r'
        \<and> (link_buttons d = [] \<and> social_icons d = [] \<longrightarrow>
              Links r' = Some fmempty \<and> IconLinks r' = Some fmempty
              \<and> json_MarshalIndent r' [] ''  '' = Inr (
                  ''{'' @ [CHR 0x0A] @
                  ''  '' @ [CHR 0x22] @ ''links'' @ [CHR 0x22] @ '': {},'' @ [CHR 0x0A] @
                  ''  '' @ [CHR 0x22] @ ''icon_links'' @ [CHR 0x22] @ '': {},'' @ [CHR 0x0A] @
                  ''  '' @ [CHR 0x22] @ ''title'' @ [CHR 0x22] @ '': '' @ appendString (Title r') @ '','' @ [CHR 0x0A] @
                  ''  '' @ [CHR 0x22] @ ''profile_name'' @ [CHR 0x22] @ '': '' @ appendString (ProfileName r') @ '','' @ [CHR 0x0A] @
                  ''  '' @ [CHR 0x22] @ ''profile_img'' @ [CHR 0x22] @ '': '' @ appendString (ProfileImg r') @ [CHR 0x0A] @
                  ''}'')))"
proof -
  have i: "Links Result_init = Some fmempty \<and> IconLinks Result_init = Some fmempty"
    by (simp add: Result_init_def)
  have e: "render [] ''  '' (Suc 0) (map_value (Some fmempty)) = ''{}''"
    by (simp add: map_value_def sorted_list_of_fmap_empty)
  obtain r' where r': "run_callbacks d Result_init = Some r'" "initialized r'"
    using run_callbacks_keeps_initialized [of Result_init d] i by (auto simp: initialized_def)
  have m: "Links r' = Some fmempty \<and> IconLinks r' = Some fmempty"
    if "link_buttons d = [] \<and> social_icons d = []"
    using r'(1) that by (auto simp: run_callbacks_init kept_def store_all_def)
  have j: "link_buttons d = [] \<and> social_icons d = [] \<longrightarrow>
              Links r' = Some fmempty \<and> IconLinks r' = Some fmempty
              \<and> json_MarshalIndent r' [] ''  '' = Inr (
                  ''{'' @ [CHR 0x0A] @
                  ''  '' @ [CHR 0x22] @ ''links'' @ [CHR 0x22] @ '': {},'' @ [CHR 0x0A] @
                  ''  '' @ [CHR 0x22] @ ''icon_links'' @ [CHR 0x22] @ '': {},'' @ [CHR 0x0A] @
                  ''  '' @ [CHR 0x22] @ ''title'' @ [CHR 0x22] @ '': '' @ appendString (Title r') @ '','' @ [CHR 0x0A] @
                  ''  '' @ [CHR 0x22] @ ''profile_name'' @ [CHR 0x22] @ '': '' @ appendString (ProfileName r') @ '','' @ [CHR 0x0A] @
                  ''  '' @ [CHR 0x22] @ ''profile_img'' @ [CHR 0x22] @ '': '' @ appendString (ProfileImg r') @ [CHR 0x0A] @
                  ''}'')"
    using m by (simp add: MarshalIndent_text e)
  have p: "initialized r \<longrightarrow>
        (\<exists>r'. onTitle r t = Some r' \<and> initialized r')
        \<and> (\<exists>r'. onLinkButton r e = Some r' \<and> initialized r')
        \<and> (\<exists>r'. onSocialIcon r e = Some r' \<and> initialized r')
        \<and> (\<exists>r'. onProfileTitle r t = Some r' \<and> initialized r')
        \<and> (\<exists>r'. onProfileImage r t = Some r' \<and> initialized r')
        \<and> (\<exists>r'. run_callbacks d r = Some r' \<and> initialized r')"
    using callbacks_keep_initialized [of r] run_callbacks_keeps_initialized [of r d] by blast
  show ?thesis
    using i r' j p by blast
qed

text \<open>The page of scenario A without its link button.\<close>

theorem maps_always_initialized_witness: \<open>
  initialized Result_init
  \<and> run_callbacks (page_A\<lparr>link_buttons := []\<rparr>) Result_init = Some (record_A\<lparr>Links := Some fmempty\<rparr>)
  \<and> json_MarshalIndent (record_A\<lparr>Links := Some fmempty\<rparr>) [] ''  '' = Inr
''{
  "links": {},
  "icon_links": {},
  "title": "Jane | Linktree",
  "profile_name": "Jane Doe",
  "profile_img": ""
}''\<close>
proof -
  have r: "run_callbacks (page_A\<lparr>link_buttons := []\<rparr>) Result_init = Some (record_A\<lparr>Links := Some fmempty\<rparr>)"
    by (simp add: run_callbacks_init page_A_def record_A_def kept_def store_all_def last_text_def)
  have p: "link_buttons (page_A\<lparr>link_buttons := []\<rparr>) = [] \<and> social_icons (page_A\<lparr>link_buttons := []\<rparr>) = []"
    by (simp add: page_A_def)
  from maps_always_initialized [of Result_init "[]" "([], [])" "page_A\<lparr>link_buttons := []\<rparr>"] r p
  have "json_MarshalIndent (record_A\<lparr>Links := Some fmempty\<rparr>) [] ''  '' = Inr (
                  ''{'' @ [CHR 0x0A] @
                  ''  '' @ [CHR 0x22] @ ''links'' @ [CHR 0x22] @ '': {},'' @ [CHR 0x0A] @
                  ''  '' @ [CHR 0x22] @ ''icon_links'' @ [CHR 0x22] @ '': {},'' @ [CHR 0x0A] @
                  ''  '' @ [CHR 0x22] @ ''title'' @ [CHR 0x22] @ '': '' @ appendString (Title (record_A\<lparr>Links := Some fmempty\<rparr>)) @ '','' @ [CHR 0x0A] @
                  ''  '' @ [CHR 0x22] @ ''profile_name'' @ [CHR 0x22] @ '': '' @ appendString (ProfileName (record_A\<lparr>Links := Some fmempty\<rparr>)) @ '','' @ [CHR 0x0A] @
                  ''  '' @ [CHR 0x22] @ ''profile_img'' @ [CHR 0x22] @ '': '' @ appendString (ProfileImg (record_A\<lparr>Links := Some fmempty\<rparr>)) @ [CHR 0x0A] @
                  ''}'')"
    by simp
  then show ?thesis
    using r by (simp add: initialized_def Result_init_def record_A_def appendString_plain htmlSafeSet_def)
qed

section \<open>The JSON text read back\<close>

lemma hex_value_hex: "n < 16 \<Longrightarrow> hex_value (hex n) = Some n"
proof -
  have "\<forall>n\<in>set [0..<16]. hex_value (hex n) = Some n"
    by code_simp
  then show "n < 16 \<Longrightarrow> hex_value (hex n) = Some n"
    by simp
qed

lemma getu4_escape:
  "a < 16 \<Longrightarrow> b < 16 \<Longrightarrow>
   getu4 (CHR 0x5C # CHR ''u'' # CHR ''0'' # CHR ''0'' # hex a # hex b # t) = Some (a * 0x10 + b)"
proof -
  have z: "hex_value (CHR ''0'') = Some 0"
    by (simp add: hex_value_def)
  show "a < 16 \<Longrightarrow> b < 16 \<Longrightarrow>
   getu4 (CHR 0x5C # CHR ''u'' # CHR ''0'' # CHR ''0'' # hex a # hex b # t) = Some (a * 0x10 + b)"
    by (simp add: getu4_def hex_value_hex z)
qed

lemma EncodeRune_ascii: "byte c < 0x80 \<Longrightarrow> EncodeRune (byte c) = [c]"
  by (simp add: EncodeRune_def)

lemma emit_bytes_emit_bytes: "emit_bytes xs (emit_bytes ys r) = emit_bytes (xs @ ys) r"
  by (cases r) (auto simp: emit_bytes_def)

lemma emit_bytes_Some: "emit_bytes xs (Some (s, rest)) = Some (xs @ s, rest)"
  by (simp add: emit_bytes_def)

lemma parse_chars_safe:
  "htmlSafeSet c \<Longrightarrow> parse_chars (c # t) = emit_bytes [c] (parse_chars t)"
  by (auto simp: htmlSafeSet_def)

lemma parse_chars_escape_byte:
  assumes "byte c < 0x80" and "\<not> htmlSafeSet c"
  shows "parse_chars (escape_byte c @ t) = emit_bytes [c] (parse_chars t)"
proof -
  consider "c = CHR 0x5C" | "c = CHR 0x22" | "c = CHR 0x08" | "c = CHR 0x0C" | "c = CHR 0x0A"
    | "c = CHR 0x0D" | "c = CHR 0x09"
    | "c \<notin> {CHR 0x5C, CHR 0x22, CHR 0x08, CHR 0x0C, CHR 0x0A, CHR 0x0D, CHR 0x09}"
    by blast
  then show ?thesis
  proof cases
    case 8
    have d: "byte c div 0x10 < 16" "byte c mod 0x10 < 16"
      using assms(1) by simp_all
    have g: "getu4 (CHR 0x5C # CHR ''u'' # CHR ''0'' # CHR ''0'' # hex (byte c div 0x10) # hex (byte c mod 0x10) # t)
               = Some (byte c)"
      using getu4_escape [OF d] by simp
    have s: "\<not> 0xD800 \<le> byte c"
      using assms(1) by simp
    show ?thesis
      using 8 g s by (simp add: escape_byte_def EncodeRune_ascii [OF assms(1)])
  qed (simp_all add: escape_byte_def simple_escape_def)
qed

lemma parse_chars_high:
  "\<forall>c\<in>set xs. 0x80 \<le> byte c \<Longrightarrow> parse_chars (xs @ t) = emit_bytes xs (parse_chars t)"
proof (induction xs)
  case Nil
  show ?case by (cases "parse_chars t") (auto simp: emit_bytes_def)
next
  case (Cons c xs)
  then have "0x80 \<le> byte c" by simp
  then have "c \<noteq> CHR 0x22" "c \<noteq> CHR 0x5C" "\<not> byte c < 0x20"
    by auto
  then show ?case
    using Cons by (simp add: emit_bytes_emit_bytes)
qed

lemma DecodeRuneInString_shape:
  assumes "DecodeRuneInString s = (c, sz)" and "\<not> (c = RuneError \<and> sz = 1)"
    and "s \<noteq> []" and "0x80 \<le> byte (s ! 0)"
  shows "(sz = 2 \<and> 2 \<le> length s \<and> 0x80 \<le> byte (s ! 1)
            \<and> c = (byte (s ! 0) mod 0x20) * 0x40 + byte (s ! 1) mod 0x40)
       \<or> (sz = 3 \<and> 3 \<le> length s \<and> 0xE0 \<le> byte (s ! 0) \<and> byte (s ! 0) \<le> 0xEF
            \<and> 0x80 \<le> byte (s ! 1) \<and> byte (s ! 1) \<le> 0xBF
            \<and> 0x80 \<le> byte (s ! 2) \<and> byte (s ! 2) \<le> 0xBF
            \<and> c = (byte (s ! 0) mod 0x10) * 0x1000 + (byte (s ! 1) mod 0x40) * 0x40
                    + byte (s ! 2) mod 0x40)
       \<or> (sz = 4 \<and> 4 \<le> length s \<and> 0xF0 \<le> byte (s ! 0) \<and> byte (s ! 0) \<le> 0xF4
            \<and> 0x80 \<le> byte (s ! 1) \<and> byte (s ! 1) \<le> 0xBF
            \<and> (byte (s ! 0) = 0xF0 \<longrightarrow> 0x90 \<le> byte (s ! 1))
            \<and> 0x80 \<le> byte (s ! 2) \<and> 0x80 \<le> byte (s ! 3)
            \<and> c = (byte (s ! 0) mod 8) * 0x40000 + (byte (s ! 1) mod 0x40) * 0x1000
                    + (byte (s ! 2) mod 0x40) * 0x40 + byte (s ! 3) mod 0x40)"
proof -
  let ?s0 = "byte (s ! 0)"
  have n: "\<not> length s < 1"
    using assms(3) by (cases s) simp_all
  have a: "\<not> ?s0 < 0x80"
    using assms(4) by simp
  consider (one) "rune_len ?s0 = 1"
    | (two) "rune_len ?s0 = 2" "0xC2 \<le> ?s0" "?s0 \<le> 0xDF"
    | (three) "rune_len ?s0 = 3" "0xE0 \<le> ?s0" "?s0 \<le> 0xEF"
    | (four) "rune_len ?s0 = 4" "0xF0 \<le> ?s0" "?s0 \<le> 0xF4"
  proof -
    have "(0xC2 \<le> ?s0 \<and> ?s0 \<le> 0xDF) \<or> (0xE0 \<le> ?s0 \<and> ?s0 \<le> 0xEF)
           \<or> (0xF0 \<le> ?s0 \<and> ?s0 \<le> 0xF4)
           \<or> (\<not> (0xC2 \<le> ?s0 \<and> ?s0 \<le> 0xDF) \<and> \<not> (0xE0 \<le> ?s0 \<and> ?s0 \<le> 0xEF)
                \<and> \<not> (0xF0 \<le> ?s0 \<and> ?s0 \<le> 0xF4))"
      by blast
    moreover have "rune_len ?s0 = 2" if "0xC2 \<le> ?s0 \<and> ?s0 \<le> 0xDF"
      using that by (simp add: rune_len_def)
    moreover have "rune_len ?s0 = 3" if "0xE0 \<le> ?s0 \<and> ?s0 \<le> 0xEF"
      using that by (simp add: rune_len_def)
    moreover have "rune_len ?s0 = 4" if "0xF0 \<le> ?s0 \<and> ?s0 \<le> 0xF4"
      using that by (simp add: rune_len_def)
    moreover have "rune_len ?s0 = 1"
      if "\<not> (0xC2 \<le> ?s0 \<and> ?s0 \<le> 0xDF) \<and> \<not> (0xE0 \<le> ?s0 \<and> ?s0 \<le> 0xEF)
                \<and> \<not> (0xF0 \<le> ?s0 \<and> ?s0 \<le> 0xF4)"
      using that by (simp add: rune_len_def)
    ultimately show ?thesis
      using one two three four by blast
  qed
  then show ?thesis
  proof cases
    case one
    then show ?thesis
      using assms(1,2) n a by (simp add: DecodeRuneInString_def Let_def)
  next
    case two
    have lo: "0x80 \<le> accept_lo ?s0"
      by (simp add: accept_lo_def)
    show ?thesis
      using assms(1,2) n a two lo
      by (auto simp: DecodeRuneInString_def Let_def split: if_splits)
  next
    case three
    have lo: "0x80 \<le> accept_lo ?s0" and hi: "accept_hi ?s0 \<le> 0xBF"
      by (simp_all add: accept_lo_def accept_hi_def)
    show ?thesis
      using assms(1,2) n a three lo hi
      by (auto simp: DecodeRuneInString_def Let_def split: if_splits)
  next
    case four
    have lo: "0x80 \<le> accept_lo ?s0" and hi: "accept_hi ?s0 \<le> 0xBF"
      and f0: "?s0 = 0xF0 \<longrightarrow> accept_lo ?s0 = 0x90"
      by (simp_all add: accept_lo_def accept_hi_def)
    show ?thesis
      using assms(1,2) n a four lo hi f0
      by (auto simp: DecodeRuneInString_def Let_def split: if_splits)
  qed
qed

lemma take_by_nth:
  "2 \<le> length s \<Longrightarrow> take 2 s = [s ! 0, s ! 1]"
  "3 \<le> length s \<Longrightarrow> take 3 s = [s ! 0, s ! 1, s ! 2]"
  "4 \<le> length s \<Longrightarrow> take 4 s = [s ! 0, s ! 1, s ! 2, s ! 3]"
proof -
  show "2 \<le> length s \<Longrightarrow> take 2 s = [s ! 0, s ! 1]"
    by (cases s; cases "tl s") auto
  show "3 \<le> length s \<Longrightarrow> take 3 s = [s ! 0, s ! 1, s ! 2]"
    by (cases s; cases "tl s"; cases "tl (tl s)") auto
  show "4 \<le> length s \<Longrightarrow> take 4 s = [s ! 0, s ! 1, s ! 2, s ! 3]"
    by (cases s; cases "tl s"; cases "tl (tl s)"; cases "tl (tl (tl s))") auto
qed

lemma DecodeRuneInString_high:
  assumes "DecodeRuneInString s = (c, sz)" and "\<not> (c = RuneError \<and> sz = 1)"
    and "s \<noteq> []" and "0x80 \<le> byte (s ! 0)"
  shows "sz \<le> length s \<and> sz \<le> 4 \<and> (\<forall>x\<in>set (take sz s). 0x80 \<le> byte x)"
  using DecodeRuneInString_shape [OF assms] assms(4)
  by (auto simp: take_by_nth)

lemma lead3_mod:
  assumes "0xE0 \<le> (x::nat)" and "x \<le> 0xEF" and "x mod 0x10 = 2"
  shows "x = 0xE2"
proof -
  have "\<forall>x\<in>set [0xE0..<0xF0]. x mod 0x10 = 2 \<longrightarrow> x = (0xE2::nat)"
    by code_simp
  moreover have "x \<in> set [0xE0..<0xF0]"
    unfolding set_upt using assms(1,2) by simp
  ultimately show ?thesis
    using assms(3) by blast
qed

lemma cont_mod:
  assumes "0x80 \<le> (y::nat)" and "y \<le> 0xBF" and "y mod 0x40 = k"
  shows "y = 0x80 + k"
proof -
  have "\<forall>y\<in>set [0x80..<0xC0]. y = 0x80 + y mod (0x40::nat)"
    by code_simp
  moreover have "y \<in> set [0x80..<0xC0]"
    unfolding set_upt using assms(1,2) by simp
  ultimately have "y = 0x80 + y mod 0x40"
    by blast
  then show ?thesis
    unfolding assms(3) .
qed

lemma lead4_mod:
  assumes "0xF0 \<le> (x::nat)" and "x \<le> 0xF4" and "0x80 \<le> (y::nat)" and "y \<le> 0xBF"
    and "x = 0xF0 \<longrightarrow> 0x90 \<le> y"
  shows "1 \<le> x mod 8 \<or> 0x10 \<le> y mod 0x40"
proof -
  have "\<forall>x\<in>set [0xF0..<0xF5]. \<forall>y\<in>set [0x80..<0xC0].
          (x = 0xF0 \<longrightarrow> 0x90 \<le> y) \<longrightarrow> 1 \<le> x mod 8 \<or> 0x10 \<le> y mod (0x40::nat)"
    by code_simp
  moreover have "x \<in> set [0xF0..<0xF5]" "y \<in> set [0x80..<0xC0]"
    unfolding set_upt using assms(1-4) by simp_all
  ultimately show ?thesis
    using assms(5) by blast
qed

lemma digits2:
  fixes q l c :: nat
  assumes "c = q * 0x40 + l" and "l < 0x40"
  shows "c div 0x40 = q \<and> c mod 0x40 = l"
  unfolding assms(1) using assms(2) by simp

lemma digits3:
  fixes a m l c :: nat
  assumes "c = a * 0x1000 + m * 0x40 + l" and "m < 0x40" and "l < 0x40"
  shows "a = c div 0x40 div 0x40 \<and> m = c div 0x40 mod 0x40 \<and> l = c mod 0x40"
proof -
  define q where "q = a * 0x40 + m"
  have "c = q * 0x40 + l"
    unfolding q_def assms(1) by simp
  from digits2 [OF this assms(3)] digits2 [OF q_def assms(2)]
  show ?thesis
    by simp
qed

lemma char_of_byte: "byte c = n \<Longrightarrow> char_of n = c"
  by (metis char_of_char)

lemma EncodeRune_separators:
  "EncodeRune 0x2028 = [CHR 0xE2, CHR 0x80, CHR 0xA8]"
  "EncodeRune 0x2029 = [CHR 0xE2, CHR 0x80, CHR 0xA9]"
proof -
  have c: "char_of (0xE2::nat) = CHR 0xE2" "char_of (0x80::nat) = CHR 0x80"
    "char_of (0xA8::nat) = CHR 0xA8" "char_of (0xA9::nat) = CHR 0xA9"
    by (rule char_of_byte, simp)+
  show "EncodeRune 0x2028 = [CHR 0xE2, CHR 0x80, CHR 0xA8]"
    "EncodeRune 0x2029 = [CHR 0xE2, CHR 0x80, CHR 0xA9]"
    by (simp_all add: EncodeRune_def c)
qed

lemma sep_three:
  assumes "3 \<le> length s" "0xE0 \<le> byte (s ! 0)" "byte (s ! 0) \<le> 0xEF"
        "0x80 \<le> byte (s ! 1)" "byte (s ! 1) \<le> 0xBF" "0x80 \<le> byte (s ! 2)" "byte (s ! 2) \<le> 0xBF"
        "c = (byte (s ! 0) mod 0x10) * 0x1000 + (byte (s ! 1) mod 0x40) * 0x40 + byte (s ! 2) mod 0x40"
    and "c = 0x2028 \<or> c = 0x2029"
  shows "take 3 s = EncodeRune c"
proof -
  have "byte (s ! 1) mod 0x40 < 0x40" "byte (s ! 2) mod 0x40 < 0x40"
    by simp_all
  note d = digits3 [OF assms(8) this]
  have h: "byte (s ! 0) mod 0x10 = c div 0x40 div 0x40"
    by (rule conjunct1 [OF d])
  have m: "byte (s ! 1) mod 0x40 = c div 0x40 mod 0x40"
    by (rule conjunct1 [OF conjunct2 [OF d]])
  have l: "byte (s ! 2) mod 0x40 = c mod 0x40"
    by (rule conjunct2 [OF conjunct2 [OF d]])
  have h2: "byte (s ! 0) mod 0x10 = 2"
    unfolding h using assms(9) by auto
  have b0: "byte (s ! 0) = byte (CHR 0xE2)"
    using lead3_mod [OF assms(2,3) h2] by simp
  have b1: "byte (s ! 1) = byte (CHR 0x80)"
    using cont_mod [OF assms(4,5) m] assms(9) by auto
  have b2: "byte (s ! 2) = byte (if c = 0x2028 then CHR 0xA8 else CHR 0xA9)"
    using cont_mod [OF assms(6,7) l] assms(9) by auto
  have e: "EncodeRune 0x2028 = [CHR 0xE2, CHR 0x80, CHR 0xA8]"
      "EncodeRune 0x2029 = [CHR 0xE2, CHR 0x80, CHR 0xA9]"
    by (rule EncodeRune_separators)+
  have s: "s ! 0 = CHR 0xE2" "s ! 1 = CHR 0x80" "s ! 2 = (if c = 0x2028 then CHR 0xA8 else CHR 0xA9)"
    using b0 b1 b2 by (simp_all only: of_char_eq_iff)
  show ?thesis
    unfolding take_by_nth(2) [OF assms(1)] s using assms(9) e by auto
qed

lemma sep_two:
  assumes "c = (byte (s ! 0) mod 0x20) * 0x40 + byte (s ! 1) mod 0x40"
  shows "c \<noteq> 0x2028 \<and> c \<noteq> 0x2029"
proof -
  have "byte (s ! 0) mod 0x20 < 0x20" "byte (s ! 1) mod 0x40 < 0x40"
    by simp_all
  then have "c < 0x800"
    unfolding assms by linarith
  then show ?thesis
    by arith
qed

lemma sep_four:
  assumes "0xF0 \<le> byte (s ! 0)" "byte (s ! 0) \<le> 0xF4" "0x80 \<le> byte (s ! 1)" "byte (s ! 1) \<le> 0xBF"
        "byte (s ! 0) = 0xF0 \<longrightarrow> 0x90 \<le> byte (s ! 1)"
        "c = (byte (s ! 0) mod 8) * 0x40000 + (byte (s ! 1) mod 0x40) * 0x1000
                    + (byte (s ! 2) mod 0x40) * 0x40 + byte (s ! 3) mod 0x40"
  shows "c \<noteq> 0x2028 \<and> c \<noteq> 0x2029"
proof -
  define h where "h = byte (s ! 0) mod 8"
  define m where "m = byte (s ! 1) mod 0x40"
  define l where "l = (byte (s ! 2) mod 0x40) * 0x40 + byte (s ! 3) mod 0x40"
  have c: "c = h * 0x40000 + m * 0x1000 + l"
    unfolding assms(6) h_def m_def l_def by simp
  have "1 \<le> h \<or> 0x10 \<le> m"
    unfolding h_def m_def by (rule lead4_mod [OF assms(1-5)])
  then have "0x10000 \<le> c"
    unfolding c by arith
  then show ?thesis
    by arith
qed

lemma DecodeRuneInString_separator:
  assumes "DecodeRuneInString s = (c, sz)" and "c = 0x2028 \<or> c = 0x2029"
    and "s \<noteq> []" and "0x80 \<le> byte (s ! 0)"
  shows "take sz s = EncodeRune c"
proof -
  have "\<not> (c = RuneError \<and> sz = 1)"
    using assms(2) by (auto simp: RuneError_def)
  note shape = DecodeRuneInString_shape [OF assms(1) this assms(3,4)]
  show ?thesis
  proof (rule disjE [OF shape])
    assume "sz = 2 \<and> 2 \<le> length s \<and> 0x80 \<le> byte (s ! 1)
            \<and> c = (byte (s ! 0) mod 0x20) * 0x40 + byte (s ! 1) mod 0x40"
    then have "c = (byte (s ! 0) mod 0x20) * 0x40 + byte (s ! 1) mod 0x40"
      by (elim conjE)
    from sep_two [OF this] assms(2) show ?thesis
      by (elim conjE disjE) (erule notE, assumption)+
  next
    assume "(sz = 3 \<and> 3 \<le> length s \<and> 0xE0 \<le> byte (s ! 0) \<and> byte (s ! 0) \<le> 0xEF
            \<and> 0x80 \<le> byte (s ! 1) \<and> byte (s ! 1) \<le> 0xBF
            \<and> 0x80 \<le> byte (s ! 2) \<and> byte (s ! 2) \<le> 0xBF
            \<and> c = (byte (s ! 0) mod 0x10) * 0x1000 + (byte (s ! 1) mod 0x40) * 0x40
                    + byte (s ! 2) mod 0x40)
       \<or> (sz = 4 \<and> 4 \<le> length s \<and> 0xF0 \<le> byte (s ! 0) \<and> byte (s ! 0) \<le> 0xF4
            \<and> 0x80 \<le> byte (s ! 1) \<and> byte (s ! 1) \<le> 0xBF
            \<and> (byte (s ! 0) = 0xF0 \<longrightarrow> 0x90 \<le> byte (s ! 1))
            \<and> 0x80 \<le> byte (s ! 2) \<and> 0x80 \<le> byte (s ! 3)
            \<and> c = (byte (s ! 0) mod 8) * 0x40000 + (byte (s ! 1) mod 0x40) * 0x1000
                    + (byte (s ! 2) mod 0x40) * 0x40 + byte (s ! 3) mod 0x40)"
    then show ?thesis
    proof (rule disjE)
      assume a: "sz = 3 \<and> 3 \<le> length s \<and> 0xE0 \<le> byte (s ! 0) \<and> byte (s ! 0) \<le> 0xEF
            \<and> 0x80 \<le> byte (s ! 1) \<and> byte (s ! 1) \<le> 0xBF
            \<and> 0x80 \<le> byte (s ! 2) \<and> byte (s ! 2) \<le> 0xBF
            \<and> c = (byte (s ! 0) mod 0x10) * 0x1000 + (byte (s ! 1) mod 0x40) * 0x40
                    + byte (s ! 2) mod 0x40"
      then have "sz = 3"
        by (elim conjE)
      moreover have "take 3 s = EncodeRune c"
        using a by (elim conjE) (rule sep_three [OF _ _ _ _ _ _ _ _ assms(2)])
      ultimately show ?thesis
        by (simp only:)
    next
      assume a: "sz = 4 \<and> 4 \<le> length s \<and> 0xF0 \<le> byte (s ! 0) \<and> byte (s ! 0) \<le> 0xF4
            \<and> 0x80 \<le> byte (s ! 1) \<and> byte (s ! 1) \<le> 0xBF
            \<and> (byte (s ! 0) = 0xF0 \<longrightarrow> 0x90 \<le> byte (s ! 1))
            \<and> 0x80 \<le> byte (s ! 2) \<and> 0x80 \<le> byte (s ! 3)
            \<and> c = (byte (s ! 0) mod 8) * 0x40000 + (byte (s ! 1) mod 0x40) * 0x1000
                    + (byte (s ! 2) mod 0x40) * 0x40 + byte (s ! 3) mod 0x40"
      have "c \<noteq> 0x2028 \<and> c \<noteq> 0x2029"
        using a by (elim conjE) (rule sep_four)
      with assms(2) show ?thesis
        by (elim conjE disjE) (erule notE, assumption)+
    qed
  qed
qed

lemma coerce_utf8_valid: "utf8_ValidString s \<Longrightarrow> coerce_utf8 s = s"
proof (induction s rule: coerce_utf8.induct)
  case 1
  show ?case by simp
next
  case (2 b bs)
  show ?case
  proof (cases "byte b < 0x80")
    case True
    then show ?thesis
      using 2 by simp
  next
    case False
    obtain c sz where d: "DecodeRuneInString (take 4 (b # bs)) = (c, sz)"
      by (cases "DecodeRuneInString (take 4 (b # bs))")
    have ok: "\<not> (c = RuneError \<and> sz = 1)" and v: "utf8_ValidString (drop sz (b # bs))"
      using "2.prems" False d by simp_all
    have "coerce_utf8 (drop sz (b # bs)) = drop sz (b # bs)"
      using "2.IH"(3) [OF False d [symmetric] ok v] .
    then have "coerce_utf8 (b # bs) = take sz (b # bs) @ drop sz (b # bs)"
      using False d ok by auto
    then show ?thesis
      by (simp only: append_take_drop_id)
  qed
qed

lemma EncodeRune_RuneError: "EncodeRune RuneError = [CHR 0xEF, CHR 0xBF, CHR 0xBD]"
proof -
  have c: "char_of (0xEF::nat) = CHR 0xEF" "char_of (0xBF::nat) = CHR 0xBF"
    "char_of (0xBD::nat) = CHR 0xBD"
    by (rule char_of_byte, simp)+
  show ?thesis
    by (simp add: EncodeRune_def RuneError_def c)
qed

lemma parse_chars_replacement:
  "parse_chars (CHR 0x5C # CHR ''u'' # CHR ''f'' # CHR ''f'' # CHR ''f'' # CHR ''d'' # t)
     = emit_bytes (EncodeRune RuneError) (parse_chars t)"
proof -
  have h: "hex_value (CHR ''f'') = Some 15" "hex_value (CHR ''d'') = Some 13"
    by (simp_all add: hex_value_def)
  have g: "getu4 (CHR 0x5C # CHR ''u'' # CHR ''f'' # CHR ''f'' # CHR ''f'' # CHR ''d'' # t) = Some RuneError"
    by (simp add: getu4_def h RuneError_def)
  have n: "\<not> RuneError < 0xE000"
    by (simp add: RuneError_def)
  show ?thesis
    using g n by simp
qed

lemma parse_chars_separator:
  assumes "c = 0x2028 \<or> c = 0x2029"
  shows "parse_chars (CHR 0x5C # CHR ''u'' # CHR ''2'' # CHR ''0'' # CHR ''2'' # hex (c mod 0x10) # t)
           = emit_bytes (EncodeRune c) (parse_chars t)"
proof -
  have h: "hex_value (CHR ''2'') = Some 2" "hex_value (CHR ''0'') = Some 0"
    by (simp_all add: hex_value_def)
  have x: "c mod 0x10 < 16"
    by simp
  have g: "getu4 (CHR 0x5C # CHR ''u'' # CHR ''2'' # CHR ''0'' # CHR ''2'' # hex (c mod 0x10) # t)
             = Some (0x2020 + c mod 0x10)"
    by (simp add: getu4_def h hex_value_hex [OF x])
  have "0x2020 + c mod 0x10 = c"
    using assms by auto
  then have g': "getu4 (CHR 0x5C # CHR ''u'' # CHR ''2'' # CHR ''0'' # CHR ''2'' # hex (c mod 0x10) # t) = Some c"
    using g by simp
  have n: "\<not> 0xD800 \<le> c"
    using assms by auto
  show ?thesis
    using g' n by simp
qed

lemma parse_chars_appendString_loop:
  "parse_chars (appendString_loop s @ CHR 0x22 # rest) = Some (coerce_utf8 s, rest)"
proof (induction s rule: appendString_loop.induct)
  case 1
  show ?case by simp
next
  case (2 b bs)
  show ?case
  proof (cases "byte b < 0x80")
    case True
    have ih: "parse_chars (appendString_loop bs @ CHR 0x22 # rest) = Some (coerce_utf8 bs, rest)"
      using "2.IH"(1) True by simp
    show ?thesis
    proof (cases "htmlSafeSet b")
      case safe: True
      then show ?thesis
        using True ih parse_chars_safe [OF safe] by (simp add: emit_bytes_Some)
    next
      case False
      then show ?thesis
        using True ih parse_chars_escape_byte [OF True False] by (simp add: emit_bytes_Some)
    qed
  next
    case False
    obtain c sz where d: "DecodeRuneInString (take 4 (b # bs)) = (c, sz)"
      by (cases "DecodeRuneInString (take 4 (b # bs))")
    show ?thesis
    proof (cases "c = RuneError \<and> sz = 1")
      case bad: True
      have ih: "parse_chars (appendString_loop (drop sz (b # bs)) @ CHR 0x22 # rest)
                  = Some (coerce_utf8 (drop sz (b # bs)), rest)"
        using "2.IH"(2) [OF False d [symmetric] bad] .
      have a: "appendString_loop (b # bs) =
              [CHR 0x5C, CHR ''u'', CHR ''f'', CHR ''f'', CHR ''f'', CHR ''d'']
                @ appendString_loop (drop sz (b # bs))"
        using False d bad by simp
      have c: "coerce_utf8 (b # bs) = [CHR 0xEF, CHR 0xBF, CHR 0xBD] @ coerce_utf8 (drop sz (b # bs))"
        using False d bad by simp
      show ?thesis
        unfolding a c using parse_chars_replacement ih
        by (simp add: emit_bytes_Some EncodeRune_RuneError)
    next
      case ok: False
      have t: "take 4 (b # bs) \<noteq> []" "0x80 \<le> byte (take 4 (b # bs) ! 0)"
        using False by simp_all
      from DecodeRuneInString_high [OF d ok t]
      have sz: "sz \<le> 4" and hi4: "\<forall>x\<in>set (take sz (take 4 (b # bs))). 0x80 \<le> byte x"
        by blast+
      have tt: "take sz (take 4 (b # bs)) = take sz (b # bs)"
        using sz by (simp only: take_take min_def) simp
      have hi: "\<forall>x\<in>set (take sz (b # bs)). 0x80 \<le> byte x"
        using hi4 unfolding tt .
      have c: "coerce_utf8 (b # bs) = take sz (b # bs) @ coerce_utf8 (drop sz (b # bs))"
        using False d ok by auto
      show ?thesis
      proof (cases "c = 0x2028 \<or> c = 0x2029")
        case True
        have ih: "parse_chars (appendString_loop (drop sz (b # bs)) @ CHR 0x22 # rest)
                    = Some (coerce_utf8 (drop sz (b # bs)), rest)"
          using "2.IH"(3) [OF False d [symmetric] ok True] .
        have "take sz (take 4 (b # bs)) = EncodeRune c"
          by (rule DecodeRuneInString_separator [OF d True t])
        then have e: "EncodeRune c = take sz (b # bs)"
          unfolding tt by simp
        have a: "appendString_loop (b # bs) =
                [CHR 0x5C, CHR ''u'', CHR ''2'', CHR ''0'', CHR ''2'', hex (c mod 0x10)]
                  @ appendString_loop (drop sz (b # bs))"
          using False d ok True by auto
        show ?thesis
          unfolding a c using parse_chars_separator [OF True] ih e
          by (simp add: emit_bytes_Some)
      next
        case nsep: False
        have ih: "parse_chars (appendString_loop (drop sz (b # bs)) @ CHR 0x22 # rest)
                    = Some (coerce_utf8 (drop sz (b # bs)), rest)"
          using "2.IH"(4) [OF False d [symmetric] ok nsep] .
        have a: "appendString_loop (b # bs) = take sz (b # bs) @ appendString_loop (drop sz (b # bs))"
          using False d ok nsep by auto
        show ?thesis
          unfolding a c using parse_chars_high [OF hi] ih
          by (simp add: emit_bytes_Some)
      qed
    qed
  qed
qed

lemma skip_space_spaces: "spaces s \<Longrightarrow> skip_space (s @ t) = skip_space t"
  by (simp add: spaces_def skip_space_def)

lemma skip_space_stop: "\<not> is_space c \<Longrightarrow> skip_space (c # t) = c # t"
  by (simp add: skip_space_def)

lemma is_space_newline: "is_space (CHR 0x0A)"
  by (simp add: is_space_def)

lemma spaces_newline_indent:
  "spaces p \<Longrightarrow> spaces i \<Longrightarrow> spaces (newline_indent p i d)"
  by (auto simp: spaces_def newline_indent_def is_space_newline)

lemma skip_newline_indent:
  "spaces p \<Longrightarrow> spaces i \<Longrightarrow> skip_space (newline_indent p i d @ t) = skip_space t"
  by (rule skip_space_spaces [OF spaces_newline_indent])

lemma render_head:
  "\<exists>c t. render p i d j = c # t \<and> \<not> is_space c
          \<and> (c = CHR 0x22 \<or> c = CHR ''n'' \<or> c = CHR ''{'')"
proof (cases j)
  case JNull
  then show ?thesis by (simp add: is_space_def)
next
  case (JString s)
  then show ?thesis by (simp add: is_space_def appendString_def)
next
  case (JObject ms)
  then show ?thesis by (cases ms) (simp_all add: is_space_def)
qed

lemma length_appendString: "2 \<le> length (appendString s)"
  by (simp add: appendString_def)

lemma need_le_length:
  "need j \<le> length (render p i d j)"
  "ms \<noteq> [] \<Longrightarrow> Suc (need_members ms) \<le> length (render_members p i d ms)"
proof (induction p i d j and p i d ms rule: render_render_members.induct)
  case (1 prefix indent depth)
  then show ?case by simp
next
  case (2 prefix indent depth s)
  then show ?case using length_appendString [of s] by simp
next
  case (3 prefix indent depth)
  then show ?case by simp
next
  case (4 prefix indent depth m ms)
  then show ?case by simp
next
  case (5 prefix indent depth)
  then show ?case by simp
next
  case (6 prefix indent depth k v)
  then show ?case using length_appendString [of k] by simp
next
  case (7 prefix indent depth k v m ms)
  then show ?case using length_appendString [of k] by simp
qed

lemma not_space: "\<not> is_space (CHR 0x22)" "\<not> is_space (CHR ''n'')" "\<not> is_space (CHR ''{'')"
  "\<not> is_space (CHR ''}'')" "\<not> is_space (CHR '':'')" "\<not> is_space (CHR '','')"
  by (simp_all add: is_space_def)

lemma is_space_blank: "is_space (CHR '' '')"
  by (simp add: is_space_def)

lemma skip_space_render: "skip_space (render p i d j @ t) = render p i d j @ t"
proof -
  obtain c u where "render p i d j = c # u" "\<not> is_space c"
    using render_head [of p i d j] by blast
  then show ?thesis
    by (simp add: skip_space_stop)
qed

lemma render_members_head:
  "ms \<noteq> [] \<Longrightarrow> \<exists>t. render_members p i d ms = CHR 0x22 # t"
proof (cases ms)
  case Nil
  assume "ms \<noteq> []"
  with Nil show ?thesis by simp
next
  case (Cons a as)
  obtain k v where a: "a = (k, v)" by (cases a)
  show ?thesis
    unfolding Cons a by (cases as) (simp_all add: appendString_def)
qed

lemma pv_null: "parse_value (Suc n) (''null'' @ rest) = Some (JNull, rest)"
  by simp

lemma pv_string:
  "parse_value (Suc n) (appendString s @ rest) = Some (JString (coerce_utf8 s), rest)"
  by (simp add: appendString_def parse_chars_appendString_loop)

lemma pv_empty: "parse_value (Suc n) (''{}'' @ rest) = Some (JObject [], rest)"
  by (simp add: skip_space_stop not_space)

lemma pv_object:
  assumes "spaces p" and "spaces i"
  shows "parse_value (Suc n) (CHR ''{'' # newline_indent p i d @ CHR 0x22 # t)
           = map_option (\<lambda>(ms, rest). (JObject ms, rest)) (parse_members n (CHR 0x22 # t))"
  by (simp add: skip_newline_indent [OF assms] skip_space_stop not_space)

lemma pm_member:
  assumes "parse_value n (render p i d v @ R) = Some (v', R)"
  shows "parse_members (Suc n) (appendString k @ '': '' @ render p i d v @ R) =
           (case skip_space R of
              [] \<Rightarrow> None
            | c3 # s4 \<Rightarrow>
                if c3 = CHR ''}'' then Some ([(coerce_utf8 k, v')], s4)
                else if c3 = CHR '','' then
                  map_option (\<lambda>(ms, rest). ((coerce_utf8 k, v') # ms, rest))
                    (parse_members n (skip_space s4))
                else None)"
proof -
  have a: "appendString k @ '': '' @ render p i d v @ R
             = CHR 0x22 # (appendString_loop k @ CHR 0x22 # (CHR '':'' # CHR '' '' # render p i d v @ R))"
    by (simp add: appendString_def)
  have s: "skip_space (CHR '' '' # render p i d v @ R) = render p i d v @ R"
    using skip_space_spaces [of "'' ''" "render p i d v @ R"]
    by (simp add: spaces_def is_space_blank skip_space_render)
  show ?thesis
    unfolding a
    by (simp add: parse_chars_appendString_loop skip_space_stop not_space s assms
        del: render.simps)
qed

lemma parse_render:
  "spaces p \<Longrightarrow> spaces i \<Longrightarrow> need j \<le> n \<Longrightarrow>
     parse_value n (render p i d j @ rest) = Some (coerce_json j, rest)"
  "spaces p \<Longrightarrow> spaces i \<Longrightarrow> ms \<noteq> [] \<Longrightarrow> need_members ms \<le> n \<Longrightarrow>
     parse_members n (render_members p i d ms @ newline_indent p i d' @ CHR ''}'' # rest)
       = Some (coerce_members ms, rest)"
proof (induction p i d j and p i d ms arbitrary: n rest and n rest d'
    rule: render_render_members.induct)
  case (1 prefix indent depth)
  then obtain n' where "n = Suc n'"
    by (cases n) simp_all
  then show ?case
    using pv_null by simp
next
  case (2 prefix indent depth s)
  then obtain n' where "n = Suc n'"
    by (cases n) simp_all
  then show ?case
    using pv_string by simp
next
  case (3 prefix indent depth)
  then obtain n' where "n = Suc n'"
    by (cases n) simp_all
  then show ?case
    using pv_empty by simp
next
  case (4 prefix indent depth m ms)
  from "4.prems"(3) obtain n' where n: "n = Suc n'" and le: "need_members (m # ms) \<le> n'"
    by (cases n) simp_all
  obtain t where t: "render_members prefix indent (Suc depth) (m # ms) = CHR 0x22 # t"
    using render_members_head [of "m # ms"] by blast
  have ih: "parse_members n' (render_members prefix indent (Suc depth) (m # ms)
              @ newline_indent prefix indent depth @ CHR ''}'' # rest)
            = Some (coerce_members (m # ms), rest)"
    by (rule "4.IH" [OF "4.prems"(1,2) _ le]) simp
  have "render prefix indent depth (JObject (m # ms)) @ rest
          = CHR ''{'' # newline_indent prefix indent (Suc depth)
              @ CHR 0x22 # (t @ newline_indent prefix indent depth @ CHR ''}'' # rest)"
    by (simp add: t)
  then have "parse_value n (render prefix indent depth (JObject (m # ms)) @ rest)
          = map_option (\<lambda>(ms, rest). (JObject ms, rest))
              (parse_members n' (CHR 0x22 # (t @ newline_indent prefix indent depth @ CHR ''}'' # rest)))"
    unfolding n by (simp only: pv_object [OF "4.prems"(1,2)])
  also have "CHR 0x22 # (t @ newline_indent prefix indent depth @ CHR ''}'' # rest)
          = render_members prefix indent (Suc depth) (m # ms)
              @ newline_indent prefix indent depth @ CHR ''}'' # rest"
    by (simp add: t)
  finally show ?case
    by (simp add: ih)
next
  case (5 prefix indent depth)
  then show ?case by simp
next
  case (6 prefix indent depth k v)
  from "6.prems"(4) obtain n' where n: "n = Suc n'" and le: "need v \<le> n'"
    by (cases n) simp_all
  let ?R = "newline_indent prefix indent d' @ CHR ''}'' # rest"
  have v: "parse_value n' (render prefix indent depth v @ ?R) = Some (coerce_json v, ?R)"
    by (rule "6.IH" [OF "6.prems"(1,2) le])
  have s: "skip_space ?R = CHR ''}'' # rest"
    by (simp add: skip_newline_indent [OF "6.prems"(1,2)] skip_space_stop not_space)
  have "render_members prefix indent depth [(k, v)] @ ?R
          = appendString k @ '': '' @ render prefix indent depth v @ ?R"
    by simp
  then show ?case
    unfolding n by (simp only: pm_member [OF v] s) simp
next
  case (7 prefix indent depth k v m ms)
  from "7.prems"(4) obtain n' where n: "n = Suc n'" and le: "need v \<le> n'"
    and le': "need_members (m # ms) \<le> n'"
    by (cases n) simp_all
  let ?M = "render_members prefix indent depth (m # ms) @ newline_indent prefix indent d' @ CHR ''}'' # rest"
  let ?R = "CHR '','' # newline_indent prefix indent depth @ ?M"
  have v: "parse_value n' (render prefix indent depth v @ ?R) = Some (coerce_json v, ?R)"
    by (rule "7.IH"(1) [OF "7.prems"(1,2) le])
  have ms: "parse_members n' ?M = Some (coerce_members (m # ms), rest)"
    by (rule "7.IH"(2) [OF "7.prems"(1,2) _ le']) simp
  obtain t where t: "render_members prefix indent depth (m # ms) = CHR 0x22 # t"
    using render_members_head [of "m # ms"] by blast
  have s: "skip_space ?R = ?R"
    by (simp add: skip_space_stop not_space)
  have s': "skip_space (newline_indent prefix indent depth @ ?M) = ?M"
    by (simp add: skip_newline_indent [OF "7.prems"(1,2)] t skip_space_stop not_space)
  have "render_members prefix indent depth ((k, v) # m # ms)
            @ newline_indent prefix indent d' @ CHR ''}'' # rest
          = appendString k @ '': '' @ render prefix indent depth v @ ?R"
    by simp
  then show ?case
    unfolding n by (simp only: pm_member [OF v] s) (simp add: s' ms del: render_members.simps)
qed

lemma json_parse_render:
  assumes "spaces p" and "spaces i"
  shows "json_parse (render p i d j) = Some (coerce_json j)"
proof -
  have "parse_value (length (render p i d j)) (render p i d j @ []) = Some (coerce_json j, [])"
    by (rule parse_render(1) [OF assms need_le_length(1)])
  moreover have "skip_space (render p i d j) = render p i d j"
    using skip_space_render [of p i d j "[]"] by simp
  ultimately show ?thesis
    by (simp add: json_parse_def skip_space_def)
qed

lemma spaces_indent: "spaces []" "spaces ''  ''"
  by (simp_all add: spaces_def is_space_blank)

lemma deserialize_render:
  "deserialize (render [] ''  '' 0 (Result_value r)) = Result_of_json (coerce_json (Result_value r))"
  by (simp add: deserialize_def json_parse_render [OF spaces_indent])

lemma map_of_rev_distinct: "distinct (map fst xs) \<Longrightarrow> map_of (rev xs) = map_of xs"
proof (induction xs)
  case Nil
  show ?case by simp
next
  case (Cons a xs)
  obtain k v where a: "a = (k, v)" by (cases a)
  have "map_of xs k = None"
    using Cons.prems by (simp add: a map_of_eq_None_iff)
  then show ?case
    using Cons by (auto simp: a map_add_def fun_eq_iff split: option.splits)
qed

lemma distinct_sorted_list_of_fmap: "distinct (map fst (sorted_list_of_fmap f))"
  by (simp add: sorted_list_of_fmap_def comp_def sorted_list_of_fset.rep_eq)

lemma store_all_sorted: "store_all (sorted_list_of_fmap f) fmempty = f"
proof (rule fmap_ext)
  fix k
  have "map_of (rev (sorted_list_of_fmap f)) k = fmlookup f k"
    by (simp add: map_of_rev_distinct [OF distinct_sorted_list_of_fmap])
  then show "fmlookup (store_all (sorted_list_of_fmap f) fmempty) k = fmlookup f k"
    by (simp add: store_all_lookup split: option.splits)
qed

lemma fold_string_members:
  "fold (\<lambda>m. fmupd (fst m) (case snd m of JString x \<Rightarrow> x | _ \<Rightarrow> []))
     (map (\<lambda>(k, v). (k, JString v)) kvs) m0 = store_all kvs m0"
  by (induction kvs arbitrary: m0) (auto simp: store_all_def)

lemma map_of_json_map_value: "map_of_json (map_value m) = Some m"
proof (cases m)
  case None
  then show ?thesis by (simp add: map_of_json_def map_value_def)
next
  case (Some f)
  have "\<forall>m\<in>set (map (\<lambda>(k, v). (k, JString v)) (sorted_list_of_fmap f)).
          (case snd m of JString _ \<Rightarrow> True | _ \<Rightarrow> False)"
    by auto
  then show ?thesis
    by (simp add: Some map_of_json_def map_value_def fold_string_members store_all_sorted
        del: set_map)
qed

lemma Result_of_json_Result_value: "Result_of_json (Result_value r) = Some r"
  by (simp add: Result_of_json_def Result_value_def set_field_def map_of_json_map_value
      Result_zero_def)

lemma coerce_string_members:
  "list_all (\<lambda>(k, v). utf8_ValidString k \<and> utf8_ValidString v) kvs \<Longrightarrow>
   coerce_members (map (\<lambda>(k, v). (k, JString v)) kvs) = map (\<lambda>(k, v). (k, JString v)) kvs"
  by (induction kvs) (auto simp: coerce_utf8_valid)

lemma coerce_map_value: "valid_map m \<Longrightarrow> coerce_json (map_value m) = map_value m"
proof (cases m)
  case None
  then show ?thesis by (simp add: map_value_def)
next
  case (Some f)
  assume "valid_map m"
  then have "fmpred (curry (\<lambda>(k, v). utf8_ValidString k \<and> utf8_ValidString v)) f"
    by (simp add: valid_map_def Some curry_def)
  then have "list_all (\<lambda>(k, v). utf8_ValidString k \<and> utf8_ValidString v) (sorted_list_of_fmap f)"
    by (simp only: list_all_sorted_list)
  then show ?thesis
    by (simp add: Some map_value_def coerce_string_members)
qed

lemma coerce_key_names:
  "coerce_utf8 ''links'' = ''links''" "coerce_utf8 ''icon_links'' = ''icon_links''"
  "coerce_utf8 ''title'' = ''title''" "coerce_utf8 ''profile_name'' = ''profile_name''"
  "coerce_utf8 ''profile_img'' = ''profile_img''"
  by simp_all

lemma coerce_Result_value:
  "valid_Result r \<Longrightarrow> coerce_json (Result_value r) = Result_value r"
  by (simp add: valid_Result_def Result_value_def coerce_map_value coerce_utf8_valid
      coerce_key_names del: coerce_utf8.simps)

text \<open>
  Claim C6, as amended. For every record whose strings (title, profile name, image URL, and
  the keys and values of both maps) are valid UTF-8, the text \<open>json.MarshalIndent\<close>
  writes is read back as the same record. The maps may be empty or nil, and the title and
  the profile name need not even be non-empty.
\<close>

theorem round_trip_valid_utf8:
  assumes "valid_Result r"
  shows "json_MarshalIndent r [] ''  '' = Inr (render [] ''  '' 0 (Result_value r))
         \<and> deserialize (render [] ''  '' 0 (Result_value r)) = Some r"
  using assms
  by (simp add: json_MarshalIndent_def deserialize_render coerce_Result_value
      Result_of_json_Result_value)

lemma valid_record_B: "valid_Result record_B"
  by (auto simp: valid_Result_def valid_map_def record_B_def)

text \<open>
  The record of scenario B.
\<close>

theorem round_trip_valid_utf8_witness:
  "valid_Result record_B
   \<and> json_MarshalIndent record_B [] ''  '' = Inr (render [] ''  '' 0 (Result_value record_B))
   \<and> deserialize (render [] ''  '' 0 (Result_value record_B)) = Some record_B"
  using round_trip_valid_utf8 [OF valid_record_B] valid_record_B by simp

text \<open>
  Claim C6 as it is stated, for arbitrary strings, fails for the record whose title is the
  byte \<open>0xFF\<close>: the encoder writes it as the escape of U+FFFD, and the text is read back
  with the three bytes of U+FFFD as the title. No other reader could do better: the record
  whose title is the byte \<open>0xFE\<close> is written as the same text.
\<close>

theorem round_trip_counterexample:
  "Title record_bad \<noteq> [] \<and> ProfileName record_bad \<noteq> []
   \<and> json_MarshalIndent record_bad [] ''  '' = Inr (render [] ''  '' 0 (Result_value record_bad))
   \<and> deserialize (render [] ''  '' 0 (Result_value record_bad))
       = Some (record_bad\<lparr>Title := [CHR 0xEF, CHR 0xBF, CHR 0xBD]\<rparr>)
   \<and> deserialize (render [] ''  '' 0 (Result_value record_bad)) \<noteq> Some record_bad
   \<and> render [] ''  '' 0 (Result_value (record_bad\<lparr>Title := [CHR 0xFE]\<rparr>))
       = render [] ''  '' 0 (Result_value record_bad)
   \<and> record_bad\<lparr>Title := [CHR 0xFE]\<rparr> \<noteq> record_bad"
proof -
  have c: "coerce_json (Result_value record_bad)
             = Result_value (record_bad\<lparr>Title := [CHR 0xEF, CHR 0xBF, CHR 0xBD]\<rparr>)"
    by (simp add: Result_value_def record_bad_def map_value_def sorted_list_of_fmap_empty
        DecodeRuneInString_def rune_len_def)
  have d: "deserialize (render [] ''  '' 0 (Result_value record_bad))
             = Some (record_bad\<lparr>Title := [CHR 0xEF, CHR 0xBF, CHR 0xBD]\<rparr>)"
    by (simp only: deserialize_render c Result_of_json_Result_value)
  have n: "record_bad\<lparr>Title := [CHR 0xEF, CHR 0xBF, CHR 0xBD]\<rparr> \<noteq> record_bad"
    by (simp add: record_bad_def)
  have a: "appendString [CHR 0xFE] = appendString [CHR 0xFF]"
    by (simp add: appendString_def DecodeRuneInString_def rune_len_def)
  have e: "render [] ''  '' 0 (Result_value (record_bad\<lparr>Title := [CHR 0xFE]\<rparr>))
             = render [] ''  '' 0 (Result_value record_bad)"
    using a by (simp add: Result_value_def record_bad_def del: appendString_loop.simps)
  show ?thesis
    using d n e by (simp add: json_MarshalIndent_def record_bad_def)
qed

end
